theory Spec2Isabelle
  imports Main "HOL-Library.AList" "HOL-Library.Sublist" "HOL-Library.Word"
begin

section \<open>Data model\<close>

text \<open>
  Text is held as its UTF-8 bytes: the program only compares, concatenates and looks up
  strings, and UTF-8 encoding is injective, so equality of the byte strings is equality
  of the Python strings. A Python float is carried as the 64 bits of its C double; the
  program never computes with one.
\<close>

datatype PropertyValue = PStr string | PInt int | PFloat "64 word" | PBool bool | PNone

text \<open>
  A Python dict keeps its keys in insertion order, and \<open>str\<close> prints them in that
  order, so a dict is an association list (keys pairwise different). \<open>map_of\<close> is
  \<open>d.get(k)\<close>, \<open>AList.update k v\<close> is \<open>d[k] = v\<close>: an existing key keeps its place, a
  new key goes to the end.
\<close>

type_synonym properties = "(string \<times> PropertyValue) list"

record Node =
  id_n :: string
  label_n :: string
  properties_n :: "properties option"

record Relationship =
  type_r :: string
  start_node_id :: string
  end_node_id :: string
  properties_r :: "properties option"

record GraphResponse =
  nodes :: "Node list"
  relationships :: "Relationship list"

datatype error = AttributeError | ValueError | Exception string

section \<open>1_prepare_data.py: combine_chunk_graphs\<close>

text \<open>
  \<open>for x in xs: acc.append(x)\<close>, and the two nested collection loops of steps 1 and 2.
\<close>

fun append_all :: "'a list \<Rightarrow> 'a list \<Rightarrow> 'a list" where
  "append_all acc [] = acc"
| "append_all acc (x # xs) = append_all (acc @ [x]) xs"

fun collect_nodes :: "Node list \<Rightarrow> GraphResponse list \<Rightarrow> Node list" where
  "collect_nodes all_nodes [] = all_nodes"
| "collect_nodes all_nodes (chunk_graph # rest) =
     collect_nodes (append_all all_nodes (nodes chunk_graph)) rest"

fun collect_relationships :: "Relationship list \<Rightarrow> GraphResponse list \<Rightarrow> Relationship list" where
  "collect_relationships all_relationships [] = all_relationships"
| "collect_relationships all_relationships (chunk_graph # rest) =
     collect_relationships (append_all all_relationships (relationships chunk_graph)) rest"

text \<open>
  \<open>node_key = (node.id, node.label, str(node.properties))\<close>. Python's builtin \<open>str\<close>
  on an optional property dict is not code of the repository: it is a parameter. In the
  definitions that follow it is the function \<open>str\<close>, the string the builtin returns,
  and every theorem holds for any such function. The builtin can also raise; the merge
  with that path is \<open>combine_chunk_graphs_raising\<close> below, which is
  \<open>combine_chunk_graphs\<close> whenever the builtin returns on every node.
\<close>

type_synonym node_key = "string \<times> string \<times> string"

definition node_key :: "(properties option \<Rightarrow> string) \<Rightarrow> Node \<Rightarrow> node_key" where
  "node_key str node = (id_n node, label_n node, str (properties_n node))"

text \<open>Step 3, the loop over \<open>all_nodes\<close> with its two accumulators.\<close>

fun unique_loop ::
  "(properties option \<Rightarrow> string) \<Rightarrow> Node list \<Rightarrow> node_key set \<Rightarrow> Node list \<Rightarrow> Node list" where
  "unique_loop str unique_nodes seen [] = unique_nodes"
| "unique_loop str unique_nodes seen (node # rest) =
     (if node_key str node \<notin> seen
      then unique_loop str (unique_nodes @ [node]) (insert (node_key str node) seen) rest
      else unique_loop str unique_nodes seen rest)"

definition combine_chunk_graphs ::
  "(properties option \<Rightarrow> string) \<Rightarrow> GraphResponse list \<Rightarrow> GraphResponse" where
  "combine_chunk_graphs str chunk_graphs =
     (let all_nodes = collect_nodes [] chunk_graphs;
          all_relationships = collect_relationships [] chunk_graphs;
          unique_nodes = unique_loop str [] {} all_nodes
      in \<lparr>nodes = unique_nodes, relationships = all_relationships\<rparr>)"

text \<open>
  The same function with the exception of \<open>str\<close>: the parameter \<open>pystr\<close> gives the
  string, or the exception the builtin raises (ValueError, when a property is an int of
  too many digits). Nothing in \<open>combine_chunk_graphs\<close> catches it, so the first node
  on which \<open>str\<close> raises ends the merge with that exception. No other statement of
  the function can raise.
\<close>

fun unique_loop_raising ::
  "(properties option \<Rightarrow> error + string) \<Rightarrow> Node list \<Rightarrow> node_key set \<Rightarrow> Node list \<Rightarrow>
     error + Node list" where
  "unique_loop_raising pystr unique_nodes seen [] = Inr unique_nodes"
| "unique_loop_raising pystr unique_nodes seen (node # rest) =
     (case pystr (properties_n node) of
        Inl e \<Rightarrow> Inl e
      | Inr s \<Rightarrow>
          (let node_key = (id_n node, label_n node, s)
           in if node_key \<notin> seen
              then unique_loop_raising pystr (unique_nodes @ [node]) (insert node_key seen) rest
              else unique_loop_raising pystr unique_nodes seen rest))"

definition combine_chunk_graphs_raising ::
  "(properties option \<Rightarrow> error + string) \<Rightarrow> GraphResponse list \<Rightarrow> error + GraphResponse" where
  "combine_chunk_graphs_raising pystr chunk_graphs =
     (let all_nodes = collect_nodes [] chunk_graphs;
          all_relationships = collect_relationships [] chunk_graphs
      in case unique_loop_raising pystr [] {} all_nodes of
           Inl e \<Rightarrow> Inl e
         | Inr unique_nodes \<Rightarrow> Inr \<lparr>nodes = unique_nodes, relationships = all_relationships\<rparr>)"

text \<open>
  The specification's wording of the deduplication, as a function of its own: keep the
  first node seen for each key and drop the later nodes with that key.
\<close>

primrec first_seen :: "('a \<Rightarrow> 'k) \<Rightarrow> 'a list \<Rightarrow> 'a list" where
  "first_seen key [] = []"
| "first_seen key (x # xs) = x # filter (\<lambda>y. key y \<noteq> key x) (first_seen key xs)"

section \<open>1_prepare_data.py: process_data\<close>

text \<open>
  \<open>KOREAN_NODE_MAP\<close>, canonical name to display name; the display names are written as
  their UTF-8 bytes.
\<close>

definition KOREAN_NODE_MAP :: "(string \<times> string) list" where
  "KOREAN_NODE_MAP =
    [
     (''Tanjiro Kamado'',
       [CHR 0xEC, CHR 0xB9, CHR 0xB4, CHR 0xEB, CHR 0xA7, CHR 0x88, CHR 0xEB, CHR 0x8F, CHR 0x84,
        CHR 0x20, CHR 0xED, CHR 0x83, CHR 0x84, CHR 0xEC, CHR 0xA7, CHR 0x80, CHR 0xEB, CHR 0xA1,
        CHR 0x9C]),
     (''Nezuko Kamado'',
       [CHR 0xEC, CHR 0xB9, CHR 0xB4, CHR 0xEB, CHR 0xA7, CHR 0x88, CHR 0xEB, CHR 0x8F, CHR 0x84,
        CHR 0x20, CHR 0xEB, CHR 0x84, CHR 0xA4, CHR 0xEC, CHR 0xA6, CHR 0x88, CHR 0xEC, CHR 0xBD,
        CHR 0x94]),
     (''Giyu Tomioka'',
       [CHR 0xED, CHR 0x86, CHR 0xA0, CHR 0xEB, CHR 0xAF, CHR 0xB8, CHR 0xEC, CHR 0x98, CHR 0xA4,
        CHR 0xEC, CHR 0xB9, CHR 0xB4, CHR 0x20, CHR 0xEA, CHR 0xB8, CHR 0xB0, CHR 0xEC, CHR 0x9C,
        CHR 0xA0]),
     (''Sakonji Urokodaki'',
       [CHR 0xEC, CHR 0x9A, CHR 0xB0, CHR 0xEB, CHR 0xA1, CHR 0x9C, CHR 0xEC, CHR 0xBD, CHR 0x94,
        CHR 0xEB, CHR 0x8B, CHR 0xA4, CHR 0xED, CHR 0x82, CHR 0xA4, CHR 0x20, CHR 0xEC, CHR 0x82,
        CHR 0xAC, CHR 0xEC, CHR 0xBD, CHR 0x98, CHR 0xEC, CHR 0xA7, CHR 0x80]),
     (''Sabito'',
       [CHR 0xEC, CHR 0x82, CHR 0xAC, CHR 0xEB, CHR 0xB9, CHR 0x84, CHR 0xED, CHR 0x86, CHR 0xA0]),
     (''Makomo'',
       [CHR 0xEB, CHR 0xA7, CHR 0x88, CHR 0xEC, CHR 0xBD, CHR 0x94, CHR 0xEB, CHR 0xAA, CHR 0xA8]),
     (''Zenitsu Agatsuma'',
       [CHR 0xEC, CHR 0x95, CHR 0x84, CHR 0xEA, CHR 0xB0, CHR 0x80, CHR 0xEC, CHR 0xB8, CHR 0xA0,
        CHR 0xEB, CHR 0xA7, CHR 0x88, CHR 0x20, CHR 0xEC, CHR 0xA0, CHR 0xA0, CHR 0xEC, CHR 0x9D,
        CHR 0xB4, CHR 0xEC, CHR 0xB8, CHR 0xA0]),
     (''Inosuke Hashibira'',
       [CHR 0xED, CHR 0x95, CHR 0x98, CHR 0xEC, CHR 0x8B, CHR 0x9C, CHR 0xEB, CHR 0xB9, CHR 0x84,
        CHR 0xEB, CHR 0x9D, CHR 0xBC, CHR 0x20, CHR 0xEC, CHR 0x9D, CHR 0xB4, CHR 0xEB, CHR 0x85,
        CHR 0xB8, CHR 0xEC, CHR 0x8A, CHR 0xA4, CHR 0xEC, CHR 0xBC, CHR 0x80]),
     (''Kanao Tsuyuri'',
       [CHR 0xEC, CHR 0xB8, CHR 0xA0, CHR 0xEC, CHR 0x9C, CHR 0xA0, CHR 0xEB, CHR 0xA6, CHR 0xAC,
        CHR 0x20, CHR 0xEC, CHR 0xB9, CHR 0xB4, CHR 0xEB, CHR 0x82, CHR 0x98, CHR 0xEC, CHR 0x98,
        CHR 0xA4]),
     (''Kyojuro Rengoku'',
       [CHR 0xEB, CHR 0xA0, CHR 0x8C, CHR 0xEA, CHR 0xB3, CHR 0xA0, CHR 0xEC, CHR 0xBF, CHR 0xA0,
        CHR 0x20, CHR 0xEC, CHR 0xBF, CHR 0x84, CHR 0xEC, CHR 0xA5, CHR 0xAC, CHR 0xEB, CHR 0xA1,
        CHR 0x9C]),
     (''Kagaya Ubuyashiki'',
       [CHR 0xEC, CHR 0x9A, CHR 0xB0, CHR 0xEB, CHR 0xB6, CHR 0x80, CHR 0xEC, CHR 0x95, CHR 0xBC,
        CHR 0xEC, CHR 0x8B, CHR 0x9C, CHR 0xED, CHR 0x82, CHR 0xA4, CHR 0x20, CHR 0xEC, CHR 0xB9,
        CHR 0xB4, CHR 0xEA, CHR 0xB0, CHR 0x80, CHR 0xEC, CHR 0x95, CHR 0xBC]),
     (''Shinobu Kocho'',
       [CHR 0xEC, CHR 0xBD, CHR 0x94, CHR 0xEC, CHR 0xB5, CHR 0xB8, CHR 0xEC, CHR 0x9A, CHR 0xB0,
        CHR 0x20, CHR 0xEC, CHR 0x8B, CHR 0x9C, CHR 0xEB, CHR 0x85, CHR 0xB8, CHR 0xEB, CHR 0xB6,
        CHR 0x80]),
     (''Sanemi Shinazugawa'',
       [CHR 0xEC, CHR 0x8B, CHR 0x9C, CHR 0xEB, CHR 0x82, CHR 0x98, CHR 0xEC, CHR 0xA6, CHR 0x88,
        CHR 0xEA, CHR 0xB0, CHR 0x80, CHR 0xEC, CHR 0x99, CHR 0x80, CHR 0x20, CHR 0xEC, CHR 0x82,
        CHR 0xAC, CHR 0xEB, CHR 0x84, CHR 0xA4, CHR 0xEB, CHR 0xAF, CHR 0xB8]),
     (''Muzan Kibutsuji'',
       [CHR 0xED, CHR 0x82, CHR 0xA4, CHR 0xEB, CHR 0xB6, CHR 0x80, CHR 0xEC, CHR 0xB8, CHR 0xA0,
        CHR 0xEC, CHR 0xA7, CHR 0x80, CHR 0x20, CHR 0xEB, CHR 0xAC, CHR 0xB4, CHR 0xEC, CHR 0x9E,
        CHR 0x94]),
     (''Susamaru'',
       [CHR 0xEC, CHR 0x8A, CHR 0xA4, CHR 0xEC, CHR 0x82, CHR 0xAC, CHR 0xEB, CHR 0xA7, CHR 0x88,
        CHR 0xEB, CHR 0xA3, CHR 0xA8]),
     (''Yahaba'',
       [CHR 0xEC, CHR 0x95, CHR 0xBC, CHR 0xED, CHR 0x95, CHR 0x98, CHR 0xEB, CHR 0xB0, CHR 0x94]),
     (''Kyogai'',
       [CHR 0xEC, CHR 0xBF, CHR 0x84, CHR 0xEC, CHR 0x9A, CHR 0xB0, CHR 0xEA, CHR 0xB0, CHR 0x80,
        CHR 0xEC, CHR 0x9D, CHR 0xB4]),
     (''Rui'',
       [CHR 0xEB, CHR 0xA3, CHR 0xA8, CHR 0xEC, CHR 0x9D, CHR 0xB4]),
     (''Enmu'',
       [CHR 0xEC, CHR 0x97, CHR 0x94, CHR 0xEB, CHR 0xAC, CHR 0xB4])
    ]"

record episode =
  season :: int
  episode_in_season :: int
  synopsis :: "string option"

text \<open>
  \<open>f"S{season}E{episode_in_season:02d}"\<close>: an int prints in decimal with a leading
  minus sign, and \<open>:02d\<close> pads with zeros to a width of two, the sign included.
\<close>

fun dec_nat :: "nat \<Rightarrow> string" where
  "dec_nat n =
     (if n < 10 then [''0123456789'' ! n]
      else dec_nat (n div 10) @ [''0123456789'' ! (n mod 10)])"

declare dec_nat.simps [simp del]

definition str_int :: "int \<Rightarrow> string" where
  "str_int i = (if i < 0 then ''-'' @ dec_nat (nat (- i)) else dec_nat (nat i))"

definition format_02d :: "int \<Rightarrow> string" where
  "format_02d i =
     (if i < 0 then ''-'' @ replicate (1 - length (dec_nat (nat (- i)))) CHR ''0'' @ dec_nat (nat (- i))
      else replicate (2 - length (dec_nat (nat i))) CHR ''0'' @ dec_nat (nat i))"

definition episode_number :: "episode \<Rightarrow> string" where
  "episode_number ep = ''S'' @ str_int (season ep) @ ''E'' @ format_02d (episode_in_season ep)"

text \<open>
  Step (2), the body of the loop over the relationships:
  \<open>if relationship.properties is None: relationship.properties = {}\<close>, then
  \<open>relationship.properties["episode_number"] = episode_number\<close>.
\<close>

definition stamp_relationship :: "string \<Rightarrow> Relationship \<Rightarrow> Relationship" where
  "stamp_relationship number relationship =
     relationship\<lparr>properties_r :=
       Some (AList.update ''episode_number'' (PStr number)
              (case properties_r relationship of None \<Rightarrow> [] | Some props \<Rightarrow> props))\<rparr>"

text \<open>
  The specification's wording of the name localization, as a function of its own: the
  name is rewritten when it is equal to a canonical name of the table, and the node
  passes through unchanged otherwise.
\<close>

definition localized :: "Node \<Rightarrow> Node" where
  "localized node =
     (case properties_n node of
        None \<Rightarrow> node
      | Some props \<Rightarrow>
          (case map_of props ''name'' of
             Some (PStr s) \<Rightarrow>
               (case map_of KOREAN_NODE_MAP s of
                  Some korean \<Rightarrow>
                    node\<lparr>properties_n := Some (AList.update ''name'' (PStr korean) props)\<rparr>
                | None \<Rightarrow> node)
           | _ \<Rightarrow> node))"

text \<open>
  Step (3), the body of the loop over the nodes. \<open>node.properties.get("name", "")\<close>
  raises AttributeError when \<open>node.properties\<close> is None: this loop has no guard like
  the one of step (2). \<open>english_name in KOREAN_NODE_MAP\<close> is false for every value
  that is not a string (the keys of the table are strings).
\<close>

definition localize_node :: "Node \<Rightarrow> error + Node" where
  "localize_node node =
     (case properties_n node of
        None \<Rightarrow> Inl AttributeError
      | Some props \<Rightarrow>
          (let english_name = (case map_of props ''name'' of None \<Rightarrow> PStr [] | Some v \<Rightarrow> v)
           in case english_name of
                PStr s \<Rightarrow>
                  (case map_of KOREAN_NODE_MAP s of
                     Some korean \<Rightarrow>
                       Inr (node\<lparr>properties_n := Some (AList.update ''name'' (PStr korean) props)\<rparr>)
                   | None \<Rightarrow> Inr node)
              | _ \<Rightarrow> Inr node))"

fun localize_nodes :: "Node list \<Rightarrow> error + Node list" where
  "localize_nodes [] = Inr []"
| "localize_nodes (node # rest) =
     (case localize_node node of
        Inl e \<Rightarrow> Inl e
      | Inr node' \<Rightarrow>
          (case localize_nodes rest of Inl e \<Rightarrow> Inl e | Inr rest' \<Rightarrow> Inr (node' # rest')))"

text \<open>
  The language-model call \<open>llm_call_structured\<close> is an external collaborator: a
  parameter \<open>llm\<close> that takes the state of the outside world and the prompt, and gives
  the parsed graph or the exception it raised, with the next state. A call that gives
  back no parsed graph fails at the first attribute read of the same \<open>try\<close> block,
  and is an exception here. \<open>UPDATED_TEMPLATE\<close> is a fixed text whose content plays no
  part below: the parameter \<open>template\<close>.
\<close>

type_synonym 'o llm_call = "'o \<Rightarrow> string \<Rightarrow> (error + GraphResponse) \<times> 'o"

definition prompt_of :: "string \<Rightarrow> string \<Rightarrow> string" where
  "prompt_of template syn =
     template @
     [CHR 0x0A, CHR 0x20, CHR 0xEC, CHR 0x9E, CHR 0x85, CHR 0xEB, CHR 0xA0, CHR 0xA5, CHR 0xEA,
      CHR 0xB0, CHR 0x92, CHR 0x0A, CHR 0x20] @ syn"

text \<open>The body of the \<open>try\<close> block for one episode with a synopsis.\<close>

definition process_episode ::
  "'o llm_call \<Rightarrow> string \<Rightarrow> 'o \<Rightarrow> episode \<Rightarrow> string \<Rightarrow> (error + GraphResponse) \<times> 'o" where
  "process_episode llm template w ep syn =
     (case llm w (prompt_of template syn) of
        (Inl e, w') \<Rightarrow> (Inl e, w')
      | (Inr graph_response, w') \<Rightarrow>
          (let rels = map (stamp_relationship (episode_number ep)) (relationships graph_response)
           in case localize_nodes (nodes graph_response) of
                Inl e \<Rightarrow> (Inl e, w')
              | Inr ns \<Rightarrow> (Inr \<lparr>nodes = ns, relationships = rels\<rparr>, w')))"

text \<open>
  The loop over the episodes: an episode whose synopsis is None or empty is passed over
  without a call; an exception in the \<open>try\<close> block is caught and the loop goes on
  with \<open>chunk_graphs\<close> as it was.
\<close>

fun extract_chunks ::
  "'o llm_call \<Rightarrow> string \<Rightarrow> GraphResponse list \<Rightarrow> 'o \<Rightarrow> episode list \<Rightarrow> GraphResponse list \<times> 'o" where
  "extract_chunks llm template chunk_graphs w [] = (chunk_graphs, w)"
| "extract_chunks llm template chunk_graphs w (ep # rest) =
     (case synopsis ep of
        None \<Rightarrow> extract_chunks llm template chunk_graphs w rest
      | Some syn \<Rightarrow>
          if syn = [] then extract_chunks llm template chunk_graphs w rest
          else (case process_episode llm template w ep syn of
                  (Inl e, w') \<Rightarrow> extract_chunks llm template chunk_graphs w' rest
                | (Inr graph_response, w') \<Rightarrow>
                    extract_chunks llm template (chunk_graphs @ [graph_response]) w' rest))"

definition no_graph_message :: string where
  "no_graph_message =
     [CHR 0xEA, CHR 0xB7, CHR 0xB8, CHR 0xEB, CHR 0x9E, CHR 0x98, CHR 0xED, CHR 0x94, CHR 0x84,
      CHR 0xEB, CHR 0xA5, CHR 0xBC, CHR 0x20, CHR 0xEC, CHR 0x84, CHR 0xB1, CHR 0xEA, CHR 0xB3,
      CHR 0xB5, CHR 0xEC, CHR 0xA0, CHR 0x81, CHR 0xEC, CHR 0x9C, CHR 0xBC, CHR 0xEB, CHR 0xA1,
      CHR 0x9C, CHR 0x20, CHR 0xEC, CHR 0xB6, CHR 0x94, CHR 0xEC, CHR 0xB6, CHR 0x9C, CHR 0xED,
      CHR 0x95, CHR 0x98, CHR 0xEC, CHR 0xA7, CHR 0x80, CHR 0x20, CHR 0xEB, CHR 0xAA, CHR 0xBB,
      CHR 0xED, CHR 0x96, CHR 0x88, CHR 0xEC, CHR 0x8A, CHR 0xB5, CHR 0xEB, CHR 0x8B, CHR 0x88,
      CHR 0xEB, CHR 0x8B, CHR 0xA4, CHR 0x2E]"

text \<open>
  \<open>process_data\<close>, with the merge where \<open>str\<close> returns on every node. Where it
  raises, the merge ends as \<open>combine_chunk_graphs_raising\<close> says, and nothing in
  \<open>process_data\<close> catches the exception.
\<close>

definition process_data ::
  "(properties option \<Rightarrow> string) \<Rightarrow> 'o llm_call \<Rightarrow> string \<Rightarrow> 'o \<Rightarrow> episode list \<Rightarrow>
     (error + GraphResponse) \<times> 'o" where
  "process_data str llm template w episodes =
     (case extract_chunks llm template [] w episodes of
        (chunk_graphs, w') \<Rightarrow>
          if chunk_graphs = [] then (Inl (Exception no_graph_message), w')
          else (Inr (combine_chunk_graphs str chunk_graphs), w'))"

section \<open>An instance of the parameter str\<close>

text \<open>
  What Python's \<open>str\<close> prints for None and for a dict of string keys and
  PropertyValue values, for the concrete runs below: \<open>{'k': v, ...}\<close> in insertion
  order. A string is quoted with single quotes, or with double quotes when it holds a
  single quote and no double quote; the quote and the backslash are escaped, so are tab,
  newline, carriage return and the other ASCII control characters. The bytes of a
  character beyond ASCII are printed as they are, which is exact for a printable
  character. The digits printed for a float are the parameter \<open>float_repr\<close>.
\<close>

definition repr_char :: "char \<Rightarrow> char \<Rightarrow> string" where
  "repr_char quote c =
     (if c = quote \<or> c = CHR 0x5C then [CHR 0x5C, c]
      else if c = CHR 0x09 then [CHR 0x5C, CHR ''t'']
      else if c = CHR 0x0A then [CHR 0x5C, CHR ''n'']
      else if c = CHR 0x0D then [CHR 0x5C, CHR ''r'']
      else if (of_char c :: nat) < 32 \<or> c = CHR 0x7F
        then [CHR 0x5C, CHR ''x'',
              ''0123456789abcdef'' ! ((of_char c :: nat) div 16),
              ''0123456789abcdef'' ! ((of_char c :: nat) mod 16)]
      else [c])"

definition repr_str :: "string \<Rightarrow> string" where
  "repr_str s =
     (let quote = (if CHR 0x27 \<in> set s \<and> CHR 0x22 \<notin> set s then CHR 0x22 else CHR 0x27)
      in quote # concat (map (repr_char quote) s) @ [quote])"

fun repr_value :: "(64 word \<Rightarrow> string) \<Rightarrow> PropertyValue \<Rightarrow> string" where
  "repr_value float_repr (PStr s) = repr_str s"
| "repr_value float_repr (PInt i) = str_int i"
| "repr_value float_repr (PFloat x) = float_repr x"
| "repr_value float_repr (PBool b) = (if b then ''True'' else ''False'')"
| "repr_value float_repr PNone = ''None''"

fun join :: "string \<Rightarrow> string list \<Rightarrow> string" where
  "join sep [] = []"
| "join sep [x] = x"
| "join sep (x # y # ys) = x @ sep @ join sep (y # ys)"

definition py_str :: "(64 word \<Rightarrow> string) \<Rightarrow> properties option \<Rightarrow> string" where
  "py_str float_repr props =
     (case props of
        None \<Rightarrow> ''None''
      | Some d \<Rightarrow>
          ''{'' @ join '', '' (map (\<lambda>(k, v). repr_str k @ '': '' @ repr_value float_repr v) d) @ ''}'')"

text \<open>
  CPython refuses to print an int of more than 4300 decimal digits
  (\<open>sys.int_info.default_max_str_digits\<close>) and raises ValueError; an int has more than
  4300 digits exactly when its absolute value is at least ten to the power 4300. The
  printing of a dict prints every value, so \<open>str\<close> of a dict raises when one of its
  values is such an int.
\<close>

definition int_max_str_digits :: nat where
  "int_max_str_digits = 4300"

definition exceeds_str_digits :: "PropertyValue \<Rightarrow> bool" where
  "exceeds_str_digits v = (case v of PInt i \<Rightarrow> 10 ^ int_max_str_digits \<le> \<bar>i\<bar> | _ \<Rightarrow> False)"

definition py_str_raising :: "(64 word \<Rightarrow> string) \<Rightarrow> properties option \<Rightarrow> error + string" where
  "py_str_raising float_repr props =
     (case props of
        None \<Rightarrow> Inr ''None''
      | Some d \<Rightarrow>
          if list_ex (\<lambda>(k, v). exceeds_str_digits v) d then Inl ValueError
          else Inr (py_str float_repr props))"

section \<open>2_ingest_data.py: the graph store\<close>

text \<open>
  The property-graph database behind the driver. A stored node has labels and
  properties; its \<open>id\<close> is one of its properties, as \<open>{id: $id}\<close> makes it. A stored
  edge joins two stored nodes, named by their places in the list of nodes: nodes are only
  ever added at the end, or deleted all together.
\<close>

record StoredNode =
  labels_s :: "string list"
  props_s :: properties

record StoredEdge =
  type_e :: string
  start_e :: nat
  end_e :: nat
  props_e :: properties

record Store =
  nodes_s :: "StoredNode list"
  edges_s :: "StoredEdge list"

text \<open>
  The three statements the writer sends, with their parameters:
  \<^item> \<open>WipeAll\<close>: \<open>MATCH (n) DETACH DELETE n\<close>;
  \<^item> \<open>MergeNode label id props\<close>: \<open>MERGE (n:label {id: $id}) SET n += $props\<close>;
  \<^item> \<open>CreateRel type start_id end_id props\<close>:
    \<open>MATCH (a {id: $start_id}), (b {id: $end_id}) CREATE (a)-[r:type $props]->(b)\<close>.

  The label and the relationship type are pasted into the text of the statement; the
  store below gives the statement its meaning when each of them is one Cypher name.
\<close>

datatype Statement =
  WipeAll
| MergeNode string string properties
| CreateRel string string string properties

definition has_id :: "string \<Rightarrow> StoredNode \<Rightarrow> bool" where
  "has_id i sn = (map_of (props_s sn) ''id'' = Some (PStr i))"

text \<open>
  \<open>SET n += $props\<close>: every key of \<open>$props\<close> is written over the stored properties,
  the key \<open>id\<close> like any other; a null value removes the key.
\<close>

fun set_plus :: "properties \<Rightarrow> properties \<Rightarrow> properties" where
  "set_plus stored [] = stored"
| "set_plus stored ((k, v) # rest) =
     set_plus (if v = PNone then AList.delete k stored else AList.update k v stored) rest"

definition merge_matches :: "string \<Rightarrow> string \<Rightarrow> StoredNode \<Rightarrow> bool" where
  "merge_matches label i sn = (label \<in> set (labels_s sn) \<and> has_id i sn)"

text \<open>
  \<open>MERGE\<close> binds \<open>n\<close> to every node with the label and the id, or creates one node
  with them when there is none; \<open>SET\<close> then applies to every node bound.
\<close>

definition cypher_merge :: "string \<Rightarrow> string \<Rightarrow> properties \<Rightarrow> Store \<Rightarrow> Store" where
  "cypher_merge label i props st =
     (if list_ex (merge_matches label i) (nodes_s st)
      then st\<lparr>nodes_s :=
             map (\<lambda>sn. if merge_matches label i sn
                        then sn\<lparr>props_s := set_plus (props_s sn) props\<rparr> else sn)
               (nodes_s st)\<rparr>
      else st\<lparr>nodes_s :=
             nodes_s st @ [\<lparr>labels_s = [label], props_s = set_plus [(''id'', PStr i)] props\<rparr>]\<rparr>)"

definition ids_matching :: "string \<Rightarrow> Store \<Rightarrow> nat list" where
  "ids_matching i st = filter (\<lambda>k. has_id i (nodes_s st ! k)) [0..<length (nodes_s st)]"

text \<open>
  \<open>MATCH (a {id: $start_id}), (b {id: $end_id})\<close> gives every pair of a node with the
  start id and a node with the end id, whatever their labels; \<open>CREATE\<close> adds one edge
  for each pair, so none when an id matches no node. Null values are not stored.
\<close>

definition cypher_create :: "string \<Rightarrow> string \<Rightarrow> string \<Rightarrow> properties \<Rightarrow> Store \<Rightarrow> Store" where
  "cypher_create ty start_id end_id props st =
     st\<lparr>edges_s :=
         edges_s st @
         concat (map (\<lambda>a. map (\<lambda>b. \<lparr>type_e = ty, start_e = a, end_e = b,
                                     props_e = filter (\<lambda>(k, v). v \<noteq> PNone) props\<rparr>)
                            (ids_matching end_id st))
                   (ids_matching start_id st))\<rparr>"

fun cypher :: "Statement \<Rightarrow> Store \<Rightarrow> Store" where
  "cypher WipeAll st = \<lparr>nodes_s = [], edges_s = []\<rparr>"
| "cypher (MergeNode label i props) st = cypher_merge label i props st"
| "cypher (CreateRel ty start_id end_id props) st = cypher_create ty start_id end_id props st"

text \<open>
  The database as the writer meets it: the store, and the statements issued to it so far.
  Any call of the driver may raise (a lost connection, a statement the server rejects):
  the parameter \<open>fault\<close> gives, for the n-th statement issued, the message of the
  exception it raises, or None when it runs. A statement that raises leaves the store as
  it was (its own transaction is not committed).
\<close>

record Database =
  store :: Store
  issued :: "Statement list"

definition execute ::
  "(nat \<Rightarrow> string option) \<Rightarrow> Statement \<Rightarrow> Database \<Rightarrow> (string + unit) \<times> Database" where
  "execute fault stmt db =
     (case fault (length (issued db)) of
        Some msg \<Rightarrow> (Inl msg, db\<lparr>issued := issued db @ [stmt]\<rparr>)
      | None \<Rightarrow> (Inr (), \<lparr>store = cypher stmt (store db), issued = issued db @ [stmt]\<rparr>))"

section \<open>2_ingest_data.py: Neo4jCreateWriter\<close>

text \<open>
  The writer receives the graph that 1_prepare_data.py saved: the nodes and
  relationships are the records above. \<open>x.properties or {}\<close> gives the empty dict for
  None and for an empty dict, and the dict itself otherwise.
\<close>

definition or_empty :: "properties option \<Rightarrow> properties" where
  "or_empty props = (case props of None \<Rightarrow> [] | Some d \<Rightarrow> if d = [] then [] else d)"

definition node_statement :: "Node \<Rightarrow> Statement" where
  "node_statement node = MergeNode (label_n node) (id_n node) (or_empty (properties_n node))"

definition relationship_statement :: "Relationship \<Rightarrow> Statement" where
  "relationship_statement rel =
     CreateRel (type_r rel) (start_node_id rel) (end_node_id rel) (or_empty (properties_r rel))"

definition wipe_database :: "(nat \<Rightarrow> string option) \<Rightarrow> Database \<Rightarrow> (string + unit) \<times> Database" where
  "wipe_database fault db = execute fault WipeAll db"

fun write_nodes ::
  "(nat \<Rightarrow> string option) \<Rightarrow> Node list \<Rightarrow> Database \<Rightarrow> (string + unit) \<times> Database" where
  "write_nodes fault [] db = (Inr (), db)"
| "write_nodes fault (node # rest) db =
     (case execute fault (node_statement node) db of
        (Inl e, db') \<Rightarrow> (Inl e, db')
      | (Inr u, db') \<Rightarrow> write_nodes fault rest db')"

fun write_relationships ::
  "(nat \<Rightarrow> string option) \<Rightarrow> Relationship list \<Rightarrow> Database \<Rightarrow> (string + unit) \<times> Database" where
  "write_relationships fault [] db = (Inr (), db)"
| "write_relationships fault (rel # rest) db =
     (case execute fault (relationship_statement rel) db of
        (Inl e, db') \<Rightarrow> (Inl e, db')
      | (Inr u, db') \<Rightarrow> write_relationships fault rest db')"

text \<open>
  The \<open>with\<close> block of \<open>run\<close>: the loop over the nodes, then the loop over the
  relationships. Opening and closing the session sends no statement.
\<close>

definition write_graph ::
  "(nat \<Rightarrow> string option) \<Rightarrow> GraphResponse \<Rightarrow> Database \<Rightarrow> (string + unit) \<times> Database" where
  "write_graph fault graph db =
     (case write_nodes fault (nodes graph) db of
        (Inl e, db') \<Rightarrow> (Inl e, db')
      | (Inr u, db') \<Rightarrow> write_relationships fault (relationships graph) db')"

text \<open>The \<open>try\<close> block of \<open>run\<close> up to its \<open>return\<close>.\<close>

definition run_try ::
  "(nat \<Rightarrow> string option) \<Rightarrow> GraphResponse \<Rightarrow> Database \<Rightarrow> (string + unit) \<times> Database" where
  "run_try fault graph db =
     (case wipe_database fault db of
        (Inl e, db') \<Rightarrow> (Inl e, db')
      | (Inr u, db') \<Rightarrow> write_graph fault graph db')"

datatype writer_status = SUCCESS | FAILURE

datatype metadata_value = MInt nat | MStr string

record KGWriterModel =
  status :: writer_status
  metadata :: "(string \<times> metadata_value) list"

definition run ::
  "(nat \<Rightarrow> string option) \<Rightarrow> GraphResponse \<Rightarrow> Database \<Rightarrow> KGWriterModel \<times> Database" where
  "run fault graph db =
     (case run_try fault graph db of
        (Inr u, db') \<Rightarrow>
          (\<lparr>status = SUCCESS,
            metadata = [(''node_count'', MInt (length (nodes graph))),
                        (''relationship_count'', MInt (length (relationships graph)))]\<rparr>, db')
      | (Inl e, db') \<Rightarrow> (\<lparr>status = FAILURE, metadata = [(''error'', MStr e)]\<rparr>, db'))"

text \<open>
  For the statements of the theorems: the statements a load issues when none raises, in
  the order of the code; the phase a statement belongs to; and a list of statements
  applied to a store one after the other.
\<close>

definition statements_of :: "GraphResponse \<Rightarrow> Statement list" where
  "statements_of graph =
     WipeAll # map node_statement (nodes graph) @ map relationship_statement (relationships graph)"

fun phase :: "Statement \<Rightarrow> nat" where
  "phase WipeAll = 0"
| "phase (MergeNode label i props) = 1"
| "phase (CreateRel ty start_id end_id props) = 2"

definition apply_all :: "Statement list \<Rightarrow> Store \<Rightarrow> Store" where
  "apply_all stmts st = fold cypher stmts st"

text \<open>A list of statements issued one after the other, up to the first that raises.\<close>

fun execute_all ::
  "(nat \<Rightarrow> string option) \<Rightarrow> Statement list \<Rightarrow> Database \<Rightarrow> (string + unit) \<times> Database" where
  "execute_all fault [] db = (Inr (), db)"
| "execute_all fault (stmt # rest) db =
     (case execute fault stmt db of
        (Inl e, db') \<Rightarrow> (Inl e, db')
      | (Inr u, db') \<Rightarrow> execute_all fault rest db')"

definition no_fault :: "nat \<Rightarrow> string option" where
  "no_fault n = None"

text \<open>
  Conditions on a graph, for the statements of the theorems. \<open>keeps_id\<close>: the node has
  no property named \<open>id\<close>, or only its own id under that name, so that \<open>SET n += $props\<close>
  leaves the id it was merged on. \<open>one_label\<close>: nodes with the same id have the same
  label. \<open>attached\<close>: both ends of the relationship are ids of nodes of the graph.
\<close>

definition keeps_id :: "Node \<Rightarrow> bool" where
  "keeps_id node =
     (\<forall>(k, v) \<in> set (or_empty (properties_n node)). k = ''id'' \<longrightarrow> v = PStr (id_n node))"

definition one_label :: "Node list \<Rightarrow> bool" where
  "one_label ns = (\<forall>a \<in> set ns. \<forall>b \<in> set ns. id_n a = id_n b \<longrightarrow> label_n a = label_n b)"

definition attached :: "GraphResponse \<Rightarrow> Relationship \<Rightarrow> bool" where
  "attached g rel =
     (start_node_id rel \<in> id_n ` set (nodes g) \<and> end_node_id rel \<in> id_n ` set (nodes g))"

text \<open>
  The node ids written by a load: the ids of the nodes the store holds after the reset
  and the node writes. A relationship is dangling when its start id or its end id is not
  among them.
\<close>

definition after_node_writes :: "GraphResponse \<Rightarrow> Store" where
  "after_node_writes g = apply_all (map node_statement (nodes g)) \<lparr>nodes_s = [], edges_s = []\<rparr>"

definition written_id :: "GraphResponse \<Rightarrow> string \<Rightarrow> bool" where
  "written_id g i = list_ex (has_id i) (nodes_s (after_node_writes g))"

definition is_dangling :: "GraphResponse \<Rightarrow> Relationship \<Rightarrow> bool" where
  "is_dangling g rel = (\<not> written_id g (start_node_id rel) \<or> \<not> written_id g (end_node_id rel))"

text \<open>
  The invariant of a store that holds nodes of the list \<open>ns\<close> only: the stored ids are
  pairwise different, and every stored node has the id and the label of a node of \<open>ns\<close>.
\<close>

definition stored_id :: "StoredNode \<Rightarrow> PropertyValue option" where
  "stored_id sn = map_of (props_s sn) ''id''"

definition graph_store :: "Node list \<Rightarrow> Store \<Rightarrow> bool" where
  "graph_store ns st =
     (distinct (map stored_id (nodes_s st)) \<and>
      (\<forall>sn \<in> set (nodes_s st). \<exists>n \<in> set ns. has_id (id_n n) sn \<and> label_n n \<in> set (labels_s sn)))"

section \<open>Concrete inputs\<close>

text \<open>The graphs on which the theorems below are run.\<close>

definition str0 :: "properties option \<Rightarrow> string" where
  "str0 = py_str (\<lambda>x. ''nan'')"

definition str0_raising :: "properties option \<Rightarrow> error + string" where
  "str0_raising = py_str_raising (\<lambda>x. ''nan'')"

definition tanjiro :: Node where
  "tanjiro = \<lparr>id_n = ''N0'', label_n = ''person'',
              properties_n = Some [(''name'', PStr ''Tanjiro Kamado'')]\<rparr>"

definition tanjiro_short :: Node where
  "tanjiro_short = \<lparr>id_n = ''N0'', label_n = ''person'',
                    properties_n = Some [(''name'', PStr ''Tanjiro'')]\<rparr>"

definition muzan :: Node where
  "muzan = \<lparr>id_n = ''N13'', label_n = ''demon'',
            properties_n = Some [(''name'', PStr ''Muzan Kibutsuji'')]\<rparr>"

definition fights :: Relationship where
  "fights = \<lparr>type_r = ''FIGHTS'', start_node_id = ''N0'', end_node_id = ''N13'',
             properties_r = Some [(''episode_number'', PStr ''S1E01'')]\<rparr>"

definition meets :: Relationship where
  "meets = \<lparr>type_r = ''MEETS'', start_node_id = ''N13'', end_node_id = ''N0'',
            properties_r = None\<rparr>"

definition chunk1 :: GraphResponse where
  "chunk1 = \<lparr>nodes = [tanjiro, tanjiro_short, tanjiro], relationships = [fights]\<rparr>"

definition giant :: Node where
  "giant = \<lparr>id_n = ''N0'', label_n = ''person'',
            properties_n = Some [(''power'', PInt (10 ^ int_max_str_digits))]\<rparr>"

definition chunk_giant :: GraphResponse where
  "chunk_giant = \<lparr>nodes = [tanjiro, giant], relationships = [fights]\<rparr>"

definition chunk2 :: GraphResponse where
  "chunk2 = \<lparr>nodes = [muzan, tanjiro, muzan], relationships = [meets, fights]\<rparr>"

text \<open>
  Episodes, and a language model that answers its first call with a graph in which one
  node has no properties, its second call with a well-formed graph, and raises
  afterwards; its state counts the calls.
\<close>

definition nameless :: Node where
  "nameless = \<lparr>id_n = ''N1'', label_n = ''person'', properties_n = None\<rparr>"

definition episode1 :: episode where
  "episode1 = \<lparr>season = 1, episode_in_season = 1, synopsis = Some ''Tanjiro comes home.''\<rparr>"

definition episode2 :: episode where
  "episode2 = \<lparr>season = 1, episode_in_season = 2, synopsis = Some ''Muzan appears.''\<rparr>"

definition llm0 :: "nat llm_call" where
  "llm0 calls prompt =
     (if calls = 0 then Inr \<lparr>nodes = [tanjiro, nameless], relationships = [fights]\<rparr>
      else if calls = 1 then Inr \<lparr>nodes = [muzan, tanjiro_short], relationships = [meets]\<rparr>
      else Inl (Exception ''timeout''),
      Suc calls)"

text \<open>Databases and graphs for the writer.\<close>

definition empty_db :: Database where
  "empty_db = \<lparr>store = \<lparr>nodes_s = [], edges_s = []\<rparr>, issued = []\<rparr>"

definition old_db :: Database where
  "old_db = \<lparr>store = \<lparr>nodes_s = [\<lparr>labels_s = [''old''], props_s = [(''id'', PStr ''N99'')]\<rparr>],
                        edges_s = [\<lparr>type_e = ''SELF'', start_e = 0, end_e = 0, props_e = []\<rparr>]\<rparr>,
             issued = []\<rparr>"

definition scenario :: GraphResponse where
  "scenario = \<lparr>nodes = [tanjiro, muzan], relationships = [fights]\<rparr>"

definition dangling :: GraphResponse where
  "dangling = \<lparr>nodes = [tanjiro], relationships = [fights]\<rparr>"

definition strays :: Relationship where
  "strays = \<lparr>type_r = ''SEEKS'', start_node_id = ''N0'', end_node_id = ''N77'',
             properties_r = Some [(''episode_number'', PStr ''S1E02'')]\<rparr>"

definition mixed :: GraphResponse where
  "mixed = \<lparr>nodes = [tanjiro, muzan], relationships = [strays, fights]\<rparr>"

definition stored_muzan :: StoredNode where
  "stored_muzan = \<lparr>labels_s = [''demon''],
                   props_s = [(''id'', PStr ''N13''), (''name'', PStr ''Muzan Kibutsuji'')]\<rparr>"

definition lost_at :: "nat \<Rightarrow> nat \<Rightarrow> string option" where
  "lost_at k n = (if n = k then Some ''connection lost'' else None)"

definition stored_tanjiro :: StoredNode where
  "stored_tanjiro = \<lparr>labels_s = [''person''],
                     props_s = [(''id'', PStr ''N0''), (''name'', PStr ''Tanjiro Kamado'')]\<rparr>"

section \<open>Properties of combine_chunk_graphs\<close>

lemma append_all_eq: "append_all acc xs = acc @ xs"
  by (induction xs arbitrary: acc) simp_all

lemma collect_nodes_eq: "collect_nodes acc gs = acc @ concat (map nodes gs)"
  by (induction gs arbitrary: acc) (simp_all add: append_all_eq)

lemma collect_relationships_eq:
  "collect_relationships acc gs = acc @ concat (map relationships gs)"
  by (induction gs arbitrary: acc) (simp_all add: append_all_eq)

lemma unique_loop_eq:
  "unique_loop str acc seen xs =
   acc @ filter (\<lambda>n. node_key str n \<notin> seen) (first_seen (node_key str) xs)"
proof (induction xs arbitrary: acc seen)
  case Nil
  show ?case by simp
next
  case (Cons x xs)
  show ?case
  proof (cases "node_key str x \<in> seen")
    case True
    then show ?thesis
      by (auto simp: Cons.IH intro!: filter_cong)
  next
    case False
    have "filter (\<lambda>n. node_key str n \<notin> insert (node_key str x) seen) (first_seen (node_key str) xs) =
          filter (\<lambda>n. node_key str n \<notin> seen)
            (filter (\<lambda>y. node_key str y \<noteq> node_key str x) (first_seen (node_key str) xs))"
      by (simp add: conj_commute)
    with False show ?thesis
      by (simp add: Cons.IH)
  qed
qed

lemma nodes_combine:
  "nodes (combine_chunk_graphs str gs) = first_seen (node_key str) (concat (map nodes gs))"
  by (simp add: combine_chunk_graphs_def collect_nodes_eq unique_loop_eq)

lemma relationships_combine:
  "relationships (combine_chunk_graphs str gs) = concat (map relationships gs)"
  by (simp add: combine_chunk_graphs_def collect_relationships_eq)

lemma set_first_seen_subset: "set (first_seen key xs) \<subseteq> set xs"
  by (induction xs) auto

lemma key_image_first_seen: "key ` set (first_seen key xs) = key ` set xs"
proof (induction xs)
  case Nil
  show ?case by simp
next
  case (Cons x xs)
  have "key ` set (filter (\<lambda>y. key y \<noteq> key x) (first_seen key xs)) =
        key ` set (first_seen key xs) - {key x}"
    by auto
  then show ?case
    using Cons.IH by auto
qed

lemma distinct_map_filter_keys:
  "distinct (map key xs) \<Longrightarrow> distinct (map key (filter P xs))"
  by (induction xs) auto

lemma distinct_first_seen: "distinct (map key (first_seen key xs))"
  by (induction xs) (auto simp: distinct_map_filter_keys)

lemma find_first_seen:
  "n \<in> set (first_seen key xs) \<Longrightarrow> find (\<lambda>m. key m = key n) xs = Some n"
  by (induction xs) auto

lemma first_seen_append:
  "first_seen key (xs @ ys) =
   first_seen key xs @ filter (\<lambda>y. key y \<notin> key ` set xs) (first_seen key ys)"
proof (induction xs)
  case Nil
  show ?case by simp
next
  case (Cons x xs)
  have "filter (\<lambda>y. key y \<noteq> key x) (filter (\<lambda>y. key y \<notin> key ` set xs) (first_seen key ys)) =
        filter (\<lambda>y. key y \<notin> key ` set (x # xs)) (first_seen key ys)"
    by (simp add: conj_commute)
  with Cons.IH show ?case
    by simp
qed

lemma filter_seen_first_seen:
  "filter (\<lambda>y. key y \<notin> key ` set xs) (first_seen key xs) = []"
  using set_first_seen_subset [of key xs] by (auto simp: filter_empty_conv)

lemma first_seen_inj_on:
  "inj_on key (set xs) \<Longrightarrow> set (first_seen key xs) = set xs"
proof
  show "set (first_seen key xs) \<subseteq> set xs"
    by (rule set_first_seen_subset)
next
  assume inj: "inj_on key (set xs)"
  show "set xs \<subseteq> set (first_seen key xs)"
  proof
    fix n
    assume n: "n \<in> set xs"
    then have "key n \<in> key ` set (first_seen key xs)"
      by (simp add: key_image_first_seen)
    then obtain m where m: "m \<in> set (first_seen key xs)" and km: "key n = key m"
      by auto
    from m have "m \<in> set xs"
      using set_first_seen_subset [of key xs] by auto
    with inj n km have "n = m"
      by (auto dest: inj_onD)
    with m show "n \<in> set (first_seen key xs)"
      by simp
  qed
qed

lemma node_key_inj_on:
  assumes "inj_on str (properties_n ` set ns)"
  shows "inj_on (node_key str) (set ns)"
proof (rule inj_onI)
  fix n m :: Node
  assume n: "n \<in> set ns" and m: "m \<in> set ns" and k: "node_key str n = node_key str m"
  from k have "str (properties_n n) = str (properties_n m)"
    by (simp add: node_key_def)
  with assms n m have "properties_n n = properties_n m"
    by (auto dest: inj_onD)
  with k show "n = m"
    by (simp add: node_key_def)
qed

text \<open>
  C1. The merge deduplicates nodes by the exact tuple (id, label, stringified
  properties). The keys of the merged nodes are pairwise different, so nodes whose id,
  label and stringified properties are all identical are collapsed to one; every key of
  the input is still there; and the node kept for a key is the first node with that key
  in iteration order. Whenever \<open>str\<close> tells the property dicts of the input apart, two
  nodes with the same id and label but different properties are both retained.
\<close>

theorem dedup_key_exactness:
  "distinct (map (node_key str) (nodes (combine_chunk_graphs str gs))) \<and>
   node_key str ` set (nodes (combine_chunk_graphs str gs)) =
     node_key str ` set (concat (map nodes gs)) \<and>
   (\<forall>n \<in> set (nodes (combine_chunk_graphs str gs)).
      find (\<lambda>m. node_key str m = node_key str n) (concat (map nodes gs)) = Some n) \<and>
   (inj_on str (properties_n ` set (concat (map nodes gs))) \<longrightarrow>
      (\<forall>n1 \<in> set (concat (map nodes gs)). \<forall>n2 \<in> set (concat (map nodes gs)).
         id_n n1 = id_n n2 \<and> label_n n1 = label_n n2 \<and> properties_n n1 \<noteq> properties_n n2 \<longrightarrow>
         n1 \<in> set (nodes (combine_chunk_graphs str gs)) \<and>
         n2 \<in> set (nodes (combine_chunk_graphs str gs))))"
proof (intro conjI impI ballI)
  show "distinct (map (node_key str) (nodes (combine_chunk_graphs str gs)))"
    by (simp only: nodes_combine distinct_first_seen)
next
  show "node_key str ` set (nodes (combine_chunk_graphs str gs)) =
        node_key str ` set (concat (map nodes gs))"
    by (simp only: nodes_combine key_image_first_seen)
next
  fix n
  assume "n \<in> set (nodes (combine_chunk_graphs str gs))"
  then show "find (\<lambda>m. node_key str m = node_key str n) (concat (map nodes gs)) = Some n"
    by (simp only: nodes_combine find_first_seen)
next
  fix n1 n2
  assume inj: "inj_on str (properties_n ` set (concat (map nodes gs)))"
    and n1: "n1 \<in> set (concat (map nodes gs))"
  have all: "set (nodes (combine_chunk_graphs str gs)) = set (concat (map nodes gs))"
    by (simp only: nodes_combine first_seen_inj_on [OF node_key_inj_on [OF inj]])
  from n1 show "n1 \<in> set (nodes (combine_chunk_graphs str gs))"
    by (simp only: all)
next
  fix n1 n2
  assume inj: "inj_on str (properties_n ` set (concat (map nodes gs)))"
    and n2: "n2 \<in> set (concat (map nodes gs))"
  have all: "set (nodes (combine_chunk_graphs str gs)) = set (concat (map nodes gs))"
    by (simp only: nodes_combine first_seen_inj_on [OF node_key_inj_on [OF inj]])
  from n2 show "n2 \<in> set (nodes (combine_chunk_graphs str gs))"
    by (simp only: all)
qed

lemmas example_defs =
  tanjiro_def tanjiro_short_def muzan_def fights_def meets_def chunk1_def chunk2_def

lemmas str0_defs = str0_def py_str_def repr_str_def repr_char_def Let_def

lemma str0_inj_on_examples:
  "inj_on str0 (properties_n ` set (concat (map nodes [chunk1, chunk2])))"
proof -
  have s: "properties_n ` set (concat (map nodes [chunk1, chunk2])) =
           set [properties_n tanjiro, properties_n tanjiro_short, properties_n muzan]"
    by (auto simp: chunk1_def chunk2_def)
  have "distinct (map str0 [properties_n tanjiro, properties_n tanjiro_short, properties_n muzan])"
    by (simp add: example_defs str0_defs)
  then show ?thesis
    unfolding s by (simp only: distinct_map)
qed

theorem dedup_key_exactness_witness:
  "inj_on str0 (properties_n ` set (concat (map nodes [chunk1, chunk2]))) \<and>
   tanjiro \<in> set (concat (map nodes [chunk1, chunk2])) \<and>
   tanjiro_short \<in> set (concat (map nodes [chunk1, chunk2])) \<and>
   id_n tanjiro = id_n tanjiro_short \<and> label_n tanjiro = label_n tanjiro_short \<and>
   properties_n tanjiro \<noteq> properties_n tanjiro_short \<and>
   tanjiro \<in> set (nodes (combine_chunk_graphs str0 [chunk1, chunk2])) \<and>
   tanjiro_short \<in> set (nodes (combine_chunk_graphs str0 [chunk1, chunk2])) \<and>
   distinct (map (node_key str0) (nodes (combine_chunk_graphs str0 [chunk1, chunk2]))) \<and>
   find (\<lambda>m. node_key str0 m = node_key str0 muzan) (concat (map nodes [chunk1, chunk2])) =
     Some muzan"
proof -
  note inj = str0_inj_on_examples
  have m1: "tanjiro \<in> set (concat (map nodes [chunk1, chunk2]))"
    and m2: "tanjiro_short \<in> set (concat (map nodes [chunk1, chunk2]))"
    by (simp_all add: chunk1_def chunk2_def)
  have d: "id_n tanjiro = id_n tanjiro_short \<and> label_n tanjiro = label_n tanjiro_short \<and>
           properties_n tanjiro \<noteq> properties_n tanjiro_short"
    by (simp add: tanjiro_def tanjiro_short_def)
  have m3: "muzan \<in> set (nodes (combine_chunk_graphs str0 [chunk1, chunk2]))"
    by (simp add: combine_chunk_graphs_def node_key_def example_defs str0_defs)
  note main = dedup_key_exactness [of str0 "[chunk1, chunk2]"]
  from main inj m1 m2 d
  have "tanjiro \<in> set (nodes (combine_chunk_graphs str0 [chunk1, chunk2])) \<and>
        tanjiro_short \<in> set (nodes (combine_chunk_graphs str0 [chunk1, chunk2]))"
    by blast
  moreover from main
  have "distinct (map (node_key str0) (nodes (combine_chunk_graphs str0 [chunk1, chunk2])))"
    by blast
  moreover from main m3
  have "find (\<lambda>m. node_key str0 m = node_key str0 muzan) (concat (map nodes [chunk1, chunk2])) =
        Some muzan"
    by blast
  ultimately show ?thesis
    using inj m1 m2 d by blast
qed

text \<open>
  C6. For the two input graphs G1 and G2, the merged nodes are the unique nodes of G1 in
  their order, followed by the unique nodes of G2 whose key was not seen in G1, in their
  order; the merged relationships are those of G1 followed by those of G2, none dropped
  and none checked against the nodes.
\<close>

theorem order_preservation:
  "nodes (combine_chunk_graphs str [G1, G2]) =
     first_seen (node_key str) (nodes G1) @
     filter (\<lambda>n. node_key str n \<notin> node_key str ` set (nodes G1))
       (first_seen (node_key str) (nodes G2)) \<and>
   relationships (combine_chunk_graphs str [G1, G2]) = relationships G1 @ relationships G2"
  by (simp add: nodes_combine relationships_combine first_seen_append)

theorem order_preservation_witness:
  "nodes (combine_chunk_graphs str0 [chunk1, chunk2]) = [tanjiro, tanjiro_short, muzan] \<and>
   relationships (combine_chunk_graphs str0 [chunk1, chunk2]) = [fights, meets, fights]"
  using order_preservation [of str0 chunk1 chunk2]
  by (simp add: node_key_def example_defs str0_defs)

text \<open>
  C7. Merging [G, G] gives the node sequence of merging [G], and twice as many
  relationships as G has.
\<close>

theorem merge_twice:
  "nodes (combine_chunk_graphs str [G, G]) = nodes (combine_chunk_graphs str [G]) \<and>
   length (relationships (combine_chunk_graphs str [G, G])) = 2 * length (relationships G)"
  by (simp add: nodes_combine relationships_combine first_seen_append filter_seen_first_seen)

theorem merge_twice_witness:
  "nodes (combine_chunk_graphs str0 [chunk2, chunk2]) = [muzan, tanjiro] \<and>
   length (relationships (combine_chunk_graphs str0 [chunk2, chunk2])) = 4"
proof -
  have "nodes (combine_chunk_graphs str0 [chunk2]) = [muzan, tanjiro]"
    by (simp add: combine_chunk_graphs_def node_key_def example_defs str0_defs)
  moreover have "length (relationships chunk2) = 2"
    by (simp add: chunk2_def)
  ultimately show ?thesis
    using merge_twice [of str0 chunk2] by simp
qed

lemma unique_loop_raising_returns:
  "\<forall>n \<in> set ns. pystr (properties_n n) = Inr (str (properties_n n)) \<Longrightarrow>
   unique_loop_raising pystr acc seen ns = Inr (unique_loop str acc seen ns)"
  by (induction ns arbitrary: acc seen) (simp_all add: node_key_def Let_def)

lemma unique_loop_raising_fails:
  "unique_loop_raising pystr acc seen ns = Inl e \<Longrightarrow>
   \<exists>n \<in> set ns. pystr (properties_n n) = Inl e"
proof (induction ns arbitrary: acc seen)
  case Nil
  then show ?case by simp
next
  case (Cons n ns)
  show ?case
  proof (cases "pystr (properties_n n)")
    case (Inl e')
    with Cons.prems show ?thesis
      by simp
  next
    case (Inr s)
    with Cons.prems obtain acc' seen' where "unique_loop_raising pystr acc' seen' ns = Inl e"
      by (auto simp: Let_def split: if_splits)
    from Cons.IH [OF this] show ?thesis
      by auto
  qed
qed

lemma unique_loop_raising_raises:
  "\<exists>n \<in> set ns. \<exists>e. pystr (properties_n n) = Inl e \<Longrightarrow>
   \<exists>e. unique_loop_raising pystr acc seen ns = Inl e"
proof (induction ns arbitrary: acc seen)
  case Nil
  then show ?case by simp
next
  case (Cons n ns)
  show ?case
  proof (cases "pystr (properties_n n)")
    case (Inl e)
    then show ?thesis
      by simp
  next
    case (Inr s)
    with Cons.prems have "\<exists>m \<in> set ns. \<exists>e. pystr (properties_n m) = Inl e"
      by auto
    from Cons.IH [OF this] Inr show ?thesis
      by (simp add: Let_def)
  qed
qed

text \<open>
  C8, as the code has it. The merge fails exactly when \<open>str\<close> raises on the
  properties of a node of the input, and then with the exception \<open>str\<close> raised;
  whenever \<open>str\<close> returns on every node the merge returns a graph, the one the total
  function describes; and merging the empty sequence returns the graph with no node and
  no relationship.
\<close>

theorem merge_fails_only_in_str:
  "combine_chunk_graphs_raising pystr [] = Inr \<lparr>nodes = [], relationships = []\<rparr> \<and>
   ((\<forall>n \<in> set (concat (map nodes gs)). pystr (properties_n n) = Inr (str (properties_n n))) \<longrightarrow>
      combine_chunk_graphs_raising pystr gs = Inr (combine_chunk_graphs str gs)) \<and>
   ((\<exists>e. combine_chunk_graphs_raising pystr gs = Inl e) =
      (\<exists>n \<in> set (concat (map nodes gs)). \<exists>e. pystr (properties_n n) = Inl e)) \<and>
   (\<forall>e. combine_chunk_graphs_raising pystr gs = Inl e \<longrightarrow>
      (\<exists>n \<in> set (concat (map nodes gs)). pystr (properties_n n) = Inl e))"
proof (intro conjI allI impI)
  show "combine_chunk_graphs_raising pystr [] = Inr \<lparr>nodes = [], relationships = []\<rparr>"
    by (simp add: combine_chunk_graphs_raising_def)
next
  assume "\<forall>n \<in> set (concat (map nodes gs)). pystr (properties_n n) = Inr (str (properties_n n))"
  then have "unique_loop_raising pystr [] {} (concat (map nodes gs)) =
             Inr (unique_loop str [] {} (concat (map nodes gs)))"
    by (rule unique_loop_raising_returns)
  then show "combine_chunk_graphs_raising pystr gs = Inr (combine_chunk_graphs str gs)"
    by (simp add: combine_chunk_graphs_raising_def combine_chunk_graphs_def collect_nodes_eq)
next
  fix e
  assume "combine_chunk_graphs_raising pystr gs = Inl e"
  then have "unique_loop_raising pystr [] {} (concat (map nodes gs)) = Inl e"
    by (simp add: combine_chunk_graphs_raising_def collect_nodes_eq split: sum.splits)
  then show "\<exists>n \<in> set (concat (map nodes gs)). pystr (properties_n n) = Inl e"
    by (rule unique_loop_raising_fails)
next
  show "(\<exists>e. combine_chunk_graphs_raising pystr gs = Inl e) =
        (\<exists>n \<in> set (concat (map nodes gs)). \<exists>e. pystr (properties_n n) = Inl e)"
  proof
    assume "\<exists>e. combine_chunk_graphs_raising pystr gs = Inl e"
    then obtain e where "unique_loop_raising pystr [] {} (concat (map nodes gs)) = Inl e"
      by (auto simp: combine_chunk_graphs_raising_def collect_nodes_eq split: sum.splits)
    from unique_loop_raising_fails [OF this]
    show "\<exists>n \<in> set (concat (map nodes gs)). \<exists>e. pystr (properties_n n) = Inl e"
      by blast
  next
    assume "\<exists>n \<in> set (concat (map nodes gs)). \<exists>e. pystr (properties_n n) = Inl e"
    from unique_loop_raising_raises [OF this, of "[]" "{}"]
    obtain e where "unique_loop_raising pystr [] {} (concat (map nodes gs)) = Inl e"
      by blast
    then show "\<exists>e. combine_chunk_graphs_raising pystr gs = Inl e"
      by (simp add: combine_chunk_graphs_raising_def collect_nodes_eq)
  qed
qed

lemmas str0_raising_defs =
  str0_raising_def py_str_raising_def exceeds_str_digits_def str0_def

theorem merge_fails_only_in_str_witness:
  "concat (map nodes [chunk1]) = [tanjiro, tanjiro_short, tanjiro] \<and>
   str0_raising (properties_n tanjiro) = Inr (str0 (properties_n tanjiro)) \<and>
   str0_raising (properties_n tanjiro_short) = Inr (str0 (properties_n tanjiro_short)) \<and>
   combine_chunk_graphs_raising str0_raising [chunk1] =
     Inr \<lparr>nodes = [tanjiro, tanjiro_short], relationships = [fights]\<rparr> \<and>
   combine_chunk_graphs_raising str0_raising [] = Inr \<lparr>nodes = [], relationships = []\<rparr> \<and>
   giant \<in> set (concat (map nodes [chunk_giant])) \<and>
   str0_raising (properties_n giant) = Inl ValueError \<and>
   (\<exists>e. combine_chunk_graphs_raising str0_raising [chunk_giant] = Inl e)"
proof -
  have c: "concat (map nodes [chunk1]) = [tanjiro, tanjiro_short, tanjiro]"
    by (simp add: chunk1_def)
  have t: "str0_raising (properties_n tanjiro) = Inr (str0 (properties_n tanjiro))"
    and u: "str0_raising (properties_n tanjiro_short) = Inr (str0 (properties_n tanjiro_short))"
    by (simp_all add: str0_raising_defs tanjiro_def tanjiro_short_def)
  have h: "\<forall>n \<in> set (concat (map nodes [chunk1])).
             str0_raising (properties_n n) = Inr (str0 (properties_n n))"
    unfolding c by (simp add: t u)
  have v: "combine_chunk_graphs str0 [chunk1] =
           \<lparr>nodes = [tanjiro, tanjiro_short], relationships = [fights]\<rparr>"
    by (simp add: combine_chunk_graphs_def node_key_def example_defs str0_defs)
  have g: "giant \<in> set (concat (map nodes [chunk_giant]))"
    by (simp add: chunk_giant_def)
  have r: "str0_raising (properties_n giant) = Inl ValueError"
    by (simp add: str0_raising_defs giant_def)
  from g r have b: "\<exists>n \<in> set (concat (map nodes [chunk_giant])).
                      \<exists>e. str0_raising (properties_n n) = Inl e"
    by blast
  from merge_fails_only_in_str [of str0_raising "[chunk1]" str0] h v
  have "combine_chunk_graphs_raising str0_raising [chunk1] =
          Inr \<lparr>nodes = [tanjiro, tanjiro_short], relationships = [fights]\<rparr> \<and>
        combine_chunk_graphs_raising str0_raising [] = Inr \<lparr>nodes = [], relationships = []\<rparr>"
    by simp
  moreover from merge_fails_only_in_str [of str0_raising "[chunk_giant]" str0] b
  have "\<exists>e. combine_chunk_graphs_raising str0_raising [chunk_giant] = Inl e"
    by blast
  ultimately show ?thesis
    using c t u g r by blast
qed

text \<open>
  The claim C8 as stated fails: a node with an int property of 4301 digits makes
  \<open>str\<close> raise ValueError, and the merge ends with that exception instead of a graph.
\<close>

theorem merge_never_fails_counterexample:
  "combine_chunk_graphs_raising str0_raising [chunk_giant] = Inl ValueError"
  by (simp add: combine_chunk_graphs_raising_def str0_raising_defs chunk_giant_def giant_def
      tanjiro_def)

section \<open>Properties of process_data\<close>

lemma localize_node_error: "localize_node node = Inl e \<Longrightarrow> e = AttributeError"
  by (auto simp: localize_node_def Let_def split: option.splits PropertyValue.splits)

lemma localize_node_None: "properties_n node = None \<Longrightarrow> localize_node node = Inl AttributeError"
  by (simp add: localize_node_def)

lemma localize_nodes_None:
  "\<exists>n \<in> set ns. properties_n n = None \<Longrightarrow> localize_nodes ns = Inl AttributeError"
proof (induction ns)
  case Nil
  then show ?case by simp
next
  case (Cons n ns)
  show ?case
  proof (cases "localize_node n")
    case (Inl e)
    then show ?thesis
      using localize_node_error [OF Inl] by simp
  next
    case (Inr n')
    then have "properties_n n \<noteq> None"
      by (cases "properties_n n") (simp_all add: localize_node_None)
    with Cons.prems have "\<exists>m \<in> set ns. properties_n m = None"
      by auto
    then have "localize_nodes ns = Inl AttributeError"
      by (rule Cons.IH)
    with Inr show ?thesis
      by simp
  qed
qed

text \<open>
  What the name localization does to a node that has a property dict: the name is
  rewritten when it is a string equal to a canonical name of the table, and the node is
  unchanged otherwise (no name, a name that is not a string, a name not in the table).
\<close>

lemma localize_node_mapping:
  "properties_n node = Some props \<Longrightarrow>
   localize_node node =
     Inr (case map_of props ''name'' of
            Some (PStr s) \<Rightarrow>
              (case map_of KOREAN_NODE_MAP s of
                 Some korean \<Rightarrow>
                   node\<lparr>properties_n := Some (AList.update ''name'' (PStr korean) props)\<rparr>
               | None \<Rightarrow> node)
          | _ \<Rightarrow> node)"
  by (simp add: localize_node_def KOREAN_NODE_MAP_def split: option.splits PropertyValue.splits)

lemma localize_node_localized:
  "properties_n node \<noteq> None \<Longrightarrow> localize_node node = Inr (localized node)"
  by (auto simp: localize_node_def localized_def KOREAN_NODE_MAP_def
      split: option.splits PropertyValue.splits)

lemma localize_nodes_eq:
  "localize_nodes ns =
     (if \<exists>n \<in> set ns. properties_n n = None then Inl AttributeError
      else Inr (map localized ns))"
proof (cases "\<exists>n \<in> set ns. properties_n n = None")
  case True
  then show ?thesis
    by (simp add: localize_nodes_None)
next
  case False
  then have "localize_nodes ns = Inr (map localized ns)"
    by (induction ns) (simp_all add: localize_node_localized)
  with False show ?thesis
    by simp
qed

lemma extract_chunks_append:
  "extract_chunks llm template cs w (xs @ ys) =
     (case extract_chunks llm template cs w xs of
        (cs', w') \<Rightarrow> extract_chunks llm template cs' w' ys)"
  by (induction xs arbitrary: cs w) (simp_all split: option.splits prod.splits sum.splits)

text \<open>
  C9. The name localization is meant to let every node without a canonical name pass
  through unchanged. A node whose properties are None has no canonical name, but the
  loop of step (3) raises AttributeError on it, where the loop of step (2) guards the
  same case for relationships: run on a chunk with such a node, the localization
  returns no node at all.
\<close>

theorem localize_nodes_none_properties:
  "localize_node nameless = Inl AttributeError \<and>
   localize_nodes [tanjiro, nameless] = Inl AttributeError \<and>
   localize_nodes [tanjiro, nameless\<lparr>properties_n := Some []\<rparr>] =
     Inr [tanjiro\<lparr>properties_n :=
            Some [(''name'', PStr (the (map_of KOREAN_NODE_MAP ''Tanjiro Kamado'')))]\<rparr>,
          nameless\<lparr>properties_n := Some []\<rparr>]"
  by (simp add: localize_node_def nameless_def tanjiro_def KOREAN_NODE_MAP_def)

text \<open>
  C10. When a node of the graph extracted for an episode has no properties (None), the
  post-processing raises AttributeError at that node's name, the exception is caught by
  the loop over the episodes, and the loop goes on with the chunk graphs it had: no node
  and no relationship of the chunk reaches the merge, which is computed from the other
  episodes alone.
\<close>

theorem none_properties_skips_chunk:
  assumes "synopsis ep = Some syn" and "syn \<noteq> []"
    and "llm w (prompt_of template syn) = (Inr g, w')"
    and "\<exists>n \<in> set (nodes g). properties_n n = None"
  shows "localize_nodes (nodes g) = Inl AttributeError \<and>
         process_episode llm template w ep syn = (Inl AttributeError, w') \<and>
         extract_chunks llm template chunk_graphs w (ep # rest) =
           extract_chunks llm template chunk_graphs w' rest \<and>
         process_data str llm template w (ep # rest) = process_data str llm template w' rest \<and>
         (extract_chunks llm template [] w0 before = (chunk_graphs, w) \<longrightarrow>
            extract_chunks llm template [] w0 (before @ ep # rest) =
              extract_chunks llm template chunk_graphs w' rest)"
proof -
  have l: "localize_nodes (nodes g) = Inl AttributeError"
    using assms(4) by (rule localize_nodes_None)
  have p: "process_episode llm template w ep syn = (Inl AttributeError, w')"
    by (simp add: process_episode_def assms(3) l)
  have e: "extract_chunks llm template cs w (ep # rest) = extract_chunks llm template cs w' rest"
    for cs
    by (simp add: assms(1,2) p)
  have "process_data str llm template w (ep # rest) = process_data str llm template w' rest"
    unfolding process_data_def by (simp only: e)
  moreover have "extract_chunks llm template [] w0 (before @ ep # rest) =
                 extract_chunks llm template chunk_graphs w' rest"
    if "extract_chunks llm template [] w0 before = (chunk_graphs, w)"
    by (simp only: extract_chunks_append that prod.case e)
  ultimately show ?thesis
    using l p e by blast
qed

theorem none_properties_skips_chunk_witness:
  "synopsis episode1 = Some ''Tanjiro comes home.'' \<and> ''Tanjiro comes home.'' \<noteq> [] \<and>
   llm0 0 (prompt_of ''T'' ''Tanjiro comes home.'') =
     (Inr \<lparr>nodes = [tanjiro, nameless], relationships = [fights]\<rparr>, 1) \<and>
   properties_n nameless = None \<and>
   extract_chunks llm0 ''T'' [] 0 [] = ([], 0) \<and>
   extract_chunks llm0 ''T'' [] 0 ([] @ episode1 # [episode2]) =
     extract_chunks llm0 ''T'' [] 1 [episode2] \<and>
   process_data str0 llm0 ''T'' 0 [episode1, episode2] =
     process_data str0 llm0 ''T'' 1 [episode2] \<and>
   process_data str0 llm0 ''T'' 1 [episode2] =
     (Inr \<lparr>nodes = [muzan\<lparr>properties_n :=
                Some [(''name'', PStr (the (map_of KOREAN_NODE_MAP ''Muzan Kibutsuji'')))]\<rparr>,
              tanjiro_short],
           relationships = [meets\<lparr>properties_r := Some [(''episode_number'', PStr ''S1E02'')]\<rparr>]\<rparr>,
      2)"
proof -
  have s: "synopsis episode1 = Some ''Tanjiro comes home.''"
    by (simp add: episode1_def)
  have n: "''Tanjiro comes home.'' \<noteq> []"
    by simp
  have c: "llm0 0 (prompt_of ''T'' ''Tanjiro comes home.'') =
           (Inr \<lparr>nodes = [tanjiro, nameless], relationships = [fights]\<rparr>, 1)"
    by (simp add: llm0_def)
  have b: "\<exists>n \<in> set (nodes \<lparr>nodes = [tanjiro, nameless], relationships = [fights]\<rparr>).
             properties_n n = None"
    by (simp add: nameless_def)
  have r: "process_data str0 llm0 ''T'' 1 [episode2] =
     (Inr \<lparr>nodes = [muzan\<lparr>properties_n :=
                Some [(''name'', PStr (the (map_of KOREAN_NODE_MAP ''Muzan Kibutsuji'')))]\<rparr>,
              tanjiro_short],
           relationships = [meets\<lparr>properties_r := Some [(''episode_number'', PStr ''S1E02'')]\<rparr>]\<rparr>,
      2)"
    by (simp add: process_data_def process_episode_def llm0_def episode2_def localize_node_def
        stamp_relationship_def episode_number_def str_int_def format_02d_def dec_nat.simps
        combine_chunk_graphs_def node_key_def KOREAN_NODE_MAP_def example_defs str0_defs)
  from none_properties_skips_chunk
        [where ep = episode1 and llm = llm0 and w = 0 and template = "''T''" and w' = 1
           and chunk_graphs = "[]" and rest = "[episode2]" and str = str0
           and ?w0.0 = 0 and before = "[]", OF s n c b]
    r s c
  show ?thesis
    by (simp add: nameless_def)
qed

section \<open>Properties of Neo4jCreateWriter.run\<close>

subsection \<open>The statements a load issues\<close>

lemma write_nodes_eq: "write_nodes fault ns db = execute_all fault (map node_statement ns) db"
  by (induction ns arbitrary: db) (simp_all split: prod.splits sum.splits)

lemma write_relationships_eq:
  "write_relationships fault rs db = execute_all fault (map relationship_statement rs) db"
  by (induction rs arbitrary: db) (simp_all split: prod.splits sum.splits)

lemma execute_all_append:
  "execute_all fault (xs @ ys) db =
     (case execute_all fault xs db of
        (Inl e, db') \<Rightarrow> (Inl e, db')
      | (Inr u, db') \<Rightarrow> execute_all fault ys db')"
  by (induction xs arbitrary: db) (simp_all split: prod.splits sum.splits)

lemma write_graph_eq:
  "write_graph fault g db =
   execute_all fault (map node_statement (nodes g) @ map relationship_statement (relationships g)) db"
  by (simp add: write_graph_def write_nodes_eq write_relationships_eq execute_all_append
      split: prod.splits sum.splits)

lemma run_try_eq: "run_try fault g db = execute_all fault (statements_of g) db"
  by (simp add: run_try_def wipe_database_def statements_of_def write_graph_eq
      split: prod.splits sum.splits)

lemma execute_all_ok:
  "\<forall>j < length ss. fault (length (issued db) + j) = None \<Longrightarrow>
   execute_all fault ss db =
     (Inr (), \<lparr>store = apply_all ss (store db), issued = issued db @ ss\<rparr>)"
proof (induction ss arbitrary: db)
  case Nil
  show ?case by (simp add: apply_all_def)
next
  case (Cons s ss)
  from Cons.prems have f0: "fault (length (issued db)) = None"
    by force
  let ?db = "\<lparr>store = cypher s (store db), issued = issued db @ [s]\<rparr>"
  have "\<forall>j < length ss. fault (length (issued ?db) + j) = None"
  proof (intro allI impI)
    fix j
    assume "j < length ss"
    then have "Suc j < length (s # ss)"
      by simp
    with Cons.prems have "fault (length (issued db) + Suc j) = None"
      by blast
    then show "fault (length (issued ?db) + j) = None"
      by simp
  qed
  from Cons.IH [OF this] f0 show ?case
    by (simp add: execute_def apply_all_def)
qed

lemma execute_all_fault:
  "k < length ss \<Longrightarrow> fault (length (issued db) + k) = Some msg \<Longrightarrow>
   \<forall>j < k. fault (length (issued db) + j) = None \<Longrightarrow>
   execute_all fault ss db =
     (Inl msg, \<lparr>store = apply_all (take k ss) (store db), issued = issued db @ take (Suc k) ss\<rparr>)"
proof (induction ss arbitrary: db k)
  case Nil
  then show ?case by simp
next
  case (Cons s ss)
  show ?case
  proof (cases k)
    case 0
    with Cons.prems show ?thesis
      by (simp add: execute_def apply_all_def)
  next
    case (Suc k')
    from Cons.prems Suc have f0: "fault (length (issued db)) = None"
      by force
    let ?db = "\<lparr>store = cypher s (store db), issued = issued db @ [s]\<rparr>"
    have a: "k' < length ss"
      using Cons.prems(1) Suc by simp
    have b: "fault (length (issued ?db) + k') = Some msg"
      using Cons.prems(2) Suc by simp
    have c: "\<forall>j < k'. fault (length (issued ?db) + j) = None"
    proof (intro allI impI)
      fix j
      assume "j < k'"
      then have "Suc j < k"
        using Suc by simp
      with Cons.prems(3) have "fault (length (issued db) + Suc j) = None"
        by blast
      then show "fault (length (issued ?db) + j) = None"
        by simp
    qed
    from Cons.IH [OF a b c] f0 Suc show ?thesis
      by (simp add: execute_def apply_all_def)
  qed
qed

lemma execute_all_issued:
  "\<exists>k. k \<le> length ss \<and> (ss \<noteq> [] \<longrightarrow> 0 < k) \<and>
       issued (snd (execute_all fault ss db)) = issued db @ take k ss"
proof (induction ss arbitrary: db)
  case Nil
  show ?case by simp
next
  case (Cons s ss)
  show ?case
  proof (cases "fault (length (issued db))")
    case (Some msg)
    then have "issued (snd (execute_all fault (s # ss) db)) = issued db @ take 1 (s # ss)"
      by (simp add: execute_def)
    then show ?thesis
      by (intro exI [of _ 1]) simp
  next
    case None
    let ?db = "\<lparr>store = cypher s (store db), issued = issued db @ [s]\<rparr>"
    from Cons.IH [of ?db] obtain k where k: "k \<le> length ss"
      and i: "issued (snd (execute_all fault ss ?db)) = issued ?db @ take k ss"
      by blast
    from None i have "issued (snd (execute_all fault (s # ss) db)) = issued db @ take (Suc k) (s # ss)"
      by (simp add: execute_def)
    with k show ?thesis
      by (intro exI [of _ "Suc k"]) simp
  qed
qed

lemma execute_all_store_after_wipe:
  "fault (length (issued db)) = None \<Longrightarrow>
   store (snd (execute_all fault (WipeAll # ss) db)) =
   store (snd (execute_all fault (WipeAll # ss) (db\<lparr>store := \<lparr>nodes_s = [], edges_s = []\<rparr>\<rparr>)))"
  by (simp add: execute_def)

lemma phases_of_statements:
  "map phase (statements_of g) =
   0 # replicate (length (nodes g)) 1 @ replicate (length (relationships g)) 2"
proof -
  have "map phase (map node_statement ns) = replicate (length ns) 1" for ns
    by (induction ns) (simp_all add: node_statement_def)
  moreover have "map phase (map relationship_statement rs) = replicate (length rs) 2" for rs
    by (induction rs) (simp_all add: relationship_statement_def)
  ultimately show ?thesis
    by (simp add: statements_of_def)
qed

lemma sorted_phases: "sorted (map phase (statements_of g))"
  by (simp add: phases_of_statements sorted_append)

lemma snd_run: "snd (run fault g db) = snd (execute_all fault (statements_of g) db)"
  by (simp add: run_def run_try_eq split: prod.splits sum.splits)

text \<open>
  C3. In every execution of the load, whatever raises, the statements issued are a
  non-empty initial part of: the reset, then one write per node in order, then one write
  per relationship in order. So the reset comes first, no node write precedes it, and no
  relationship write precedes a node write. The reset is unconditional: when it runs,
  the store the load leaves does not depend on what the store held before.
\<close>

theorem load_order:
  "(\<exists>k. 0 < k \<and> k \<le> length (statements_of g) \<and>
        issued (snd (run fault g db)) = issued db @ take k (statements_of g)) \<and>
   hd (drop (length (issued db)) (issued (snd (run fault g db)))) = WipeAll \<and>
   sorted (map phase (drop (length (issued db)) (issued (snd (run fault g db))))) \<and>
   ((\<forall>n. fault n = None) \<longrightarrow>
      issued (snd (run fault g db)) = issued db @ statements_of g \<and>
      store (snd (run fault g db)) =
        apply_all (tl (statements_of g)) \<lparr>nodes_s = [], edges_s = []\<rparr>) \<and>
   (fault (length (issued db)) = None \<longrightarrow>
      store (snd (run fault g db)) =
      store (snd (run fault g (db\<lparr>store := \<lparr>nodes_s = [], edges_s = []\<rparr>\<rparr>))))"
proof -
  have ne: "statements_of g \<noteq> []"
    by (simp add: statements_of_def)
  from execute_all_issued [of "statements_of g" fault db] ne
  obtain k where k: "k \<le> length (statements_of g)" "0 < k"
    and i: "issued (snd (run fault g db)) = issued db @ take k (statements_of g)"
    by (auto simp: snd_run)
  have d: "drop (length (issued db)) (issued (snd (run fault g db))) = take k (statements_of g)"
    by (simp add: i)
  have h: "hd (take k (statements_of g)) = WipeAll"
    using k(2) by (cases k) (simp_all add: statements_of_def)
  have s: "sorted (map phase (take k (statements_of g)))"
    using sorted_phases [of g] by (simp add: take_map [symmetric] sorted_wrt_take)
  have a: "issued (snd (run fault g db)) = issued db @ statements_of g \<and>
           store (snd (run fault g db)) =
             apply_all (tl (statements_of g)) \<lparr>nodes_s = [], edges_s = []\<rparr>"
    if "\<forall>n. fault n = None"
    using execute_all_ok [of "statements_of g" fault db] that
    by (simp add: snd_run) (simp add: statements_of_def apply_all_def)
  have w: "store (snd (run fault g db)) =
           store (snd (run fault g (db\<lparr>store := \<lparr>nodes_s = [], edges_s = []\<rparr>\<rparr>)))"
    if "fault (length (issued db)) = None"
    using execute_all_store_after_wipe [where fault = fault and db = db, OF that]
    by (simp add: snd_run statements_of_def)
  from k i h s a w show ?thesis
    unfolding d by blast
qed

lemmas writer_defs =
  run_def run_try_def wipe_database_def write_graph_def execute_def statements_of_def
  node_statement_def relationship_statement_def or_empty_def cypher_merge_def
  cypher_create_def ids_matching_def merge_matches_def has_id_def apply_all_def

lemmas writer_examples =
  scenario_def dangling_def old_db_def empty_db_def tanjiro_def muzan_def
  fights_def lost_at_def no_fault_def

theorem load_order_witness:
  "issued (snd (run (lost_at 2) scenario old_db)) =
     [WipeAll, node_statement tanjiro, node_statement muzan] \<and>
   hd (drop (length (issued old_db)) (issued (snd (run (lost_at 2) scenario old_db)))) = WipeAll \<and>
   sorted (map phase (drop (length (issued old_db)) (issued (snd (run (lost_at 2) scenario old_db))))) \<and>
   (\<forall>n. no_fault n = None) \<and>
   issued (snd (run no_fault scenario old_db)) =
     [WipeAll, node_statement tanjiro, node_statement muzan, relationship_statement fights] \<and>
   store (snd (run no_fault scenario old_db)) =
     apply_all [node_statement tanjiro, node_statement muzan, relationship_statement fights]
       \<lparr>nodes_s = [], edges_s = []\<rparr> \<and>
   lost_at 2 (length (issued old_db)) = None \<and>
   store (snd (run (lost_at 2) scenario old_db)) =
     store (snd (run (lost_at 2) scenario (old_db\<lparr>store := \<lparr>nodes_s = [], edges_s = []\<rparr>\<rparr>)))"
proof -
  have i: "issued (snd (run (lost_at 2) scenario old_db)) =
           [WipeAll, node_statement tanjiro, node_statement muzan]"
    by (simp add: run_def run_try_def wipe_database_def write_graph_def execute_def
        scenario_def old_db_def lost_at_def)
  have n: "\<forall>n. no_fault n = None"
    by (simp add: no_fault_def)
  have l: "lost_at 2 (length (issued old_db)) = None"
    by (simp add: lost_at_def old_db_def)
  have s: "issued old_db @ statements_of scenario =
           [WipeAll, node_statement tanjiro, node_statement muzan, relationship_statement fights]"
    by (simp add: statements_of_def scenario_def old_db_def)
  have t: "tl (statements_of scenario) =
           [node_statement tanjiro, node_statement muzan, relationship_statement fights]"
    by (simp add: statements_of_def scenario_def)
  from load_order [of scenario "lost_at 2" old_db] load_order [of scenario no_fault old_db] i n l s t
  show ?thesis
    by simp
qed

text \<open>
  C5. When a statement of the load raises (the reset, a node write or a relationship
  write: the k-th statement, the first to raise), \<open>run\<close> returns a result, of status
  FAILURE, whose metadata is the message of the exception under \<open>error\<close>; and the store
  is left as the k statements before it made it: nothing is rolled back.
\<close>

theorem load_failure:
  assumes "k < length (statements_of g)"
    and "fault (length (issued db) + k) = Some msg"
    and "\<forall>j < k. fault (length (issued db) + j) = None"
  shows "run fault g db =
     (\<lparr>status = FAILURE, metadata = [(''error'', MStr msg)]\<rparr>,
      \<lparr>store = apply_all (take k (statements_of g)) (store db),
       issued = issued db @ take (Suc k) (statements_of g)\<rparr>)"
  using execute_all_fault [OF assms] by (simp add: run_def run_try_eq)

theorem load_failure_witness:
  "(2::nat) < length (statements_of scenario) \<and>
   lost_at 2 (length (issued old_db) + 2) = Some ''connection lost'' \<and>
   lost_at 2 (length (issued old_db) + 0) = None \<and>
   lost_at 2 (length (issued old_db) + 1) = None \<and>
   run (lost_at 2) scenario old_db =
     (\<lparr>status = FAILURE, metadata = [(''error'', MStr ''connection lost'')]\<rparr>,
      \<lparr>store = \<lparr>nodes_s = [\<lparr>labels_s = [''person''],
                              props_s = [(''id'', PStr ''N0''), (''name'', PStr ''Tanjiro Kamado'')]\<rparr>],
                  edges_s = []\<rparr>,
       issued = [WipeAll, node_statement tanjiro, node_statement muzan]\<rparr>)"
proof -
  have a: "(2::nat) < length (statements_of scenario)"
    by (simp add: statements_of_def scenario_def)
  have b: "lost_at 2 (length (issued old_db) + 2) = Some ''connection lost''"
    by (simp add: lost_at_def old_db_def)
  have c: "\<forall>j < 2. lost_at 2 (length (issued old_db) + j) = None"
    by (simp add: lost_at_def old_db_def)
  have c': "lost_at 2 (length (issued old_db) + 0) = None \<and>
            lost_at 2 (length (issued old_db) + 1) = None"
    by (simp add: lost_at_def old_db_def)
  have s: "apply_all (take 2 (statements_of scenario)) (store old_db) =
           \<lparr>nodes_s = [\<lparr>labels_s = [''person''],
                         props_s = [(''id'', PStr ''N0''), (''name'', PStr ''Tanjiro Kamado'')]\<rparr>],
            edges_s = []\<rparr>"
    by (simp add: writer_defs writer_examples)
  have i: "issued old_db @ take (Suc 2) (statements_of scenario) =
           [WipeAll, node_statement tanjiro, node_statement muzan]"
    by (simp add: statements_of_def scenario_def old_db_def)
  from load_failure [OF a b c] a b c' s i show ?thesis
    by simp
qed

subsection \<open>The store under node and relationship writes\<close>

lemma apply_all_append: "apply_all (xs @ ys) st = apply_all ys (apply_all xs st)"
  by (simp add: apply_all_def)

lemma apply_all_Cons: "apply_all (x # xs) st = apply_all xs (cypher x st)"
  by (simp add: apply_all_def)

lemma apply_all_Nil: "apply_all [] st = st"
  by (simp add: apply_all_def)

lemma set_plus_keeps_id:
  "\<forall>(k, v) \<in> set props. k = ''id'' \<longrightarrow> v = PStr i \<Longrightarrow>
   map_of stored ''id'' = Some (PStr i) \<Longrightarrow>
   map_of (set_plus stored props) ''id'' = Some (PStr i)"
proof (induction props arbitrary: stored)
  case Nil
  then show ?case by simp
next
  case (Cons p props)
  obtain k v where p: "p = (k, v)"
    by (cases p)
  let ?stored = "if v = PNone then AList.delete k stored else AList.update k v stored"
  have "map_of ?stored ''id'' = Some (PStr i)"
    using Cons.prems p by (auto simp: update_conv' delete_conv')
  moreover have "\<forall>(k, v) \<in> set props. k = ''id'' \<longrightarrow> v = PStr i"
    using Cons.prems(1) by simp
  ultimately have "map_of (set_plus ?stored props) ''id'' = Some (PStr i)"
    by (intro Cons.IH)
  with p show ?case
    by simp
qed

lemma updated_has_id:
  "keeps_id n \<Longrightarrow> has_id (id_n n) sn \<Longrightarrow>
   has_id (id_n n) (sn\<lparr>props_s := set_plus (props_s sn) (or_empty (properties_n n))\<rparr>)"
  by (simp add: has_id_def keeps_id_def set_plus_keeps_id)

lemma created_has_id:
  "keeps_id n \<Longrightarrow>
   has_id (id_n n) \<lparr>labels_s = [label_n n],
     props_s = set_plus [(''id'', PStr (id_n n))] (or_empty (properties_n n))\<rparr>"
  by (simp add: has_id_def keeps_id_def set_plus_keeps_id)

lemma has_id_stored_id: "has_id i sn = (stored_id sn = Some (PStr i))"
  by (simp add: has_id_def stored_id_def)

lemma cypher_node_statement:
  "cypher (node_statement n) st =
     (if list_ex (merge_matches (label_n n) (id_n n)) (nodes_s st)
      then st\<lparr>nodes_s :=
             map (\<lambda>sn. if merge_matches (label_n n) (id_n n) sn
                        then sn\<lparr>props_s := set_plus (props_s sn) (or_empty (properties_n n))\<rparr>
                        else sn)
               (nodes_s st)\<rparr>
      else st\<lparr>nodes_s :=
             nodes_s st @ [\<lparr>labels_s = [label_n n],
                props_s = set_plus [(''id'', PStr (id_n n))] (or_empty (properties_n n))\<rparr>]\<rparr>)"
  by (simp add: node_statement_def cypher_merge_def)

lemma node_write_edges: "edges_s (cypher (node_statement n) st) = edges_s st"
  by (simp add: cypher_node_statement)

text \<open>Every stored node keeps the id of some node of the graph.\<close>

lemma node_write_ids_within:
  assumes "\<forall>sn \<in> set (nodes_s st). \<exists>m \<in> set ns. has_id (id_n m) sn"
    and "n \<in> set ns" and "keeps_id n"
  shows "\<forall>sn \<in> set (nodes_s (cypher (node_statement n) st)). \<exists>m \<in> set ns. has_id (id_n m) sn"
proof (cases "list_ex (merge_matches (label_n n) (id_n n)) (nodes_s st)")
  case True
  show ?thesis
  proof
    fix sn'
    assume "sn' \<in> set (nodes_s (cypher (node_statement n) st))"
    with True obtain sn where sn: "sn \<in> set (nodes_s st)"
      and sn': "sn' = (if merge_matches (label_n n) (id_n n) sn
                       then sn\<lparr>props_s := set_plus (props_s sn) (or_empty (properties_n n))\<rparr>
                       else sn)"
      by (auto simp: cypher_node_statement)
    show "\<exists>m \<in> set ns. has_id (id_n m) sn'"
    proof (cases "merge_matches (label_n n) (id_n n) sn")
      case True
      then have "has_id (id_n n) sn'"
        using sn' assms(3) by (simp add: merge_matches_def updated_has_id)
      with assms(2) show ?thesis
        by blast
    next
      case False
      with sn sn' assms(1) show ?thesis
        by simp
    qed
  qed
next
  case False
  then have "nodes_s (cypher (node_statement n) st) =
             nodes_s st @ [\<lparr>labels_s = [label_n n],
                props_s = set_plus [(''id'', PStr (id_n n))] (or_empty (properties_n n))\<rparr>]"
    by (simp add: cypher_node_statement)
  with assms created_has_id [OF assms(3)] show ?thesis
    by auto
qed

lemma node_writes_ids_within:
  assumes "\<forall>sn \<in> set (nodes_s st). \<exists>m \<in> set ns. has_id (id_n m) sn"
    and "set ms \<subseteq> set ns" and "\<forall>n \<in> set ms. keeps_id n"
  shows "\<forall>sn \<in> set (nodes_s (apply_all (map node_statement ms) st)).
           \<exists>m \<in> set ns. has_id (id_n m) sn"
  using assms
proof (induction ms arbitrary: st)
  case Nil
  then show ?case by (simp add: apply_all_Nil)
next
  case (Cons n ms)
  have "\<forall>sn \<in> set (nodes_s (cypher (node_statement n) st)). \<exists>m \<in> set ns. has_id (id_n m) sn"
    using Cons.prems by (intro node_write_ids_within) simp_all
  then have "\<forall>sn \<in> set (nodes_s (apply_all (map node_statement ms) (cypher (node_statement n) st))).
               \<exists>m \<in> set ns. has_id (id_n m) sn"
    using Cons.prems by (intro Cons.IH) simp_all
  then show ?case
    by (simp add: apply_all_Cons)
qed

lemma ids_matching_empty:
  "\<forall>sn \<in> set (nodes_s st). \<not> has_id i sn \<Longrightarrow> ids_matching i st = []"
  by (simp add: ids_matching_def filter_empty_conv)

lemma create_nodes: "nodes_s (cypher (relationship_statement r) st) = nodes_s st"
  by (simp add: relationship_statement_def cypher_create_def)

lemma create_no_match:
  assumes "\<not> list_ex (has_id (start_node_id r)) (nodes_s st) \<or>
           \<not> list_ex (has_id (end_node_id r)) (nodes_s st)"
  shows "cypher (relationship_statement r) st = st"
proof -
  from assms have "ids_matching (start_node_id r) st = [] \<or> ids_matching (end_node_id r) st = []"
    by (auto simp: list_ex_iff intro: ids_matching_empty)
  then show ?thesis
    by (auto simp: relationship_statement_def cypher_create_def)
qed

lemma creates_without:
  assumes "\<forall>r \<in> set rs. D r \<longrightarrow>
             \<not> list_ex (has_id (start_node_id r)) (nodes_s st) \<or>
             \<not> list_ex (has_id (end_node_id r)) (nodes_s st)"
  shows "apply_all (map relationship_statement rs) st =
         apply_all (map relationship_statement (filter (\<lambda>r. \<not> D r) rs)) st"
  using assms
proof (induction rs arbitrary: st)
  case Nil
  show ?case by simp
next
  case (Cons r rs)
  let ?st = "cypher (relationship_statement r) st"
  have n: "nodes_s ?st = nodes_s st"
    by (rule create_nodes)
  have rest: "\<forall>r \<in> set rs. D r \<longrightarrow>
                \<not> list_ex (has_id (start_node_id r)) (nodes_s ?st) \<or>
                \<not> list_ex (has_id (end_node_id r)) (nodes_s ?st)"
    using Cons.prems by (simp only: n) simp
  show ?case
  proof (cases "D r")
    case True
    with Cons.prems have "?st = st"
      by (intro create_no_match) simp
    with Cons.IH [OF rest] True show ?thesis
      by (simp add: apply_all_Cons)
  next
    case False
    with Cons.IH [OF rest] show ?thesis
      by (simp add: apply_all_Cons)
  qed
qed

text \<open>
  When the nodes keep their ids, the ids written are the ids of the nodes of the graph.
\<close>

lemma node_write_present:
  assumes "keeps_id n"
    and "list_ex (has_id i) (nodes_s st) \<or> i = id_n n"
  shows "list_ex (has_id i) (nodes_s (cypher (node_statement n) st))"
proof (cases "list_ex (merge_matches (label_n n) (id_n n)) (nodes_s st)")
  case True
  let ?upd = "\<lambda>sn. if merge_matches (label_n n) (id_n n) sn
                     then sn\<lparr>props_s := set_plus (props_s sn) (or_empty (properties_n n))\<rparr>
                     else sn"
  have nodes': "nodes_s (cypher (node_statement n) st) = map ?upd (nodes_s st)"
    using True by (simp add: cypher_node_statement)
  have keep: "has_id j (?upd sn)" if "has_id j sn" for j sn
  proof (cases "merge_matches (label_n n) (id_n n) sn")
    case True
    then have h: "has_id (id_n n) sn"
      by (simp add: merge_matches_def)
    with that have "j = id_n n"
      by (simp add: has_id_def)
    with updated_has_id [OF assms(1) h] True show ?thesis
      by simp
  next
    case False
    with that show ?thesis
      by simp
  qed
  from True obtain sn0 where sn0: "sn0 \<in> set (nodes_s st)" "has_id (id_n n) sn0"
    by (auto simp: list_ex_iff merge_matches_def)
  from assms(2) sn0 obtain sn where "sn \<in> set (nodes_s st)" "has_id i sn"
    by (auto simp: list_ex_iff)
  then have "?upd sn \<in> set (map ?upd (nodes_s st))" "has_id i (?upd sn)"
    using keep by simp_all
  then show ?thesis
    unfolding nodes' list_ex_iff by blast
next
  case False
  then have "nodes_s (cypher (node_statement n) st) =
             nodes_s st @ [\<lparr>labels_s = [label_n n],
                props_s = set_plus [(''id'', PStr (id_n n))] (or_empty (properties_n n))\<rparr>]"
    by (simp add: cypher_node_statement)
  with assms(2) created_has_id [OF assms(1)] show ?thesis
    by (auto simp: list_ex_iff)
qed

lemma node_writes_present:
  assumes "\<forall>n \<in> set ms. keeps_id n"
    and "list_ex (has_id i) (nodes_s st) \<or> i \<in> id_n ` set ms"
  shows "list_ex (has_id i) (nodes_s (apply_all (map node_statement ms) st))"
  using assms
proof (induction ms arbitrary: st)
  case Nil
  then show ?case by (simp add: apply_all_Nil)
next
  case (Cons n ms)
  show ?case
  proof (cases "list_ex (has_id i) (nodes_s st) \<or> i = id_n n")
    case True
    from Cons.prems(1) have "keeps_id n"
      by simp
    from node_write_present [OF this True]
    have "list_ex (has_id i) (nodes_s (cypher (node_statement n) st)) \<or> i \<in> id_n ` set ms"
      by simp
    with Cons.prems(1) have "list_ex (has_id i)
        (nodes_s (apply_all (map node_statement ms) (cypher (node_statement n) st)))"
      by (intro Cons.IH) simp_all
    then show ?thesis
      by (simp add: apply_all_Cons)
  next
    case False
    with Cons.prems(2) have "list_ex (has_id i) (nodes_s (cypher (node_statement n) st)) \<or>
                             i \<in> id_n ` set ms"
      by auto
    with Cons.prems(1) have "list_ex (has_id i)
        (nodes_s (apply_all (map node_statement ms) (cypher (node_statement n) st)))"
      by (intro Cons.IH) simp_all
    then show ?thesis
      by (simp add: apply_all_Cons)
  qed
qed

lemma written_id_keeps_id:
  assumes "\<forall>n \<in> set (nodes g). keeps_id n"
  shows "written_id g i = (i \<in> id_n ` set (nodes g))"
proof
  assume "written_id g i"
  then obtain sn where sn: "sn \<in> set (nodes_s (after_node_writes g))" "has_id i sn"
    by (auto simp: written_id_def list_ex_iff)
  have "\<forall>sn \<in> set (nodes_s (after_node_writes g)). \<exists>m \<in> set (nodes g). has_id (id_n m) sn"
    unfolding after_node_writes_def using assms by (intro node_writes_ids_within) simp_all
  with sn(1) obtain m where m: "m \<in> set (nodes g)" "has_id (id_n m) sn"
    by blast
  from sn(2) m(2) have "i = id_n m"
    by (simp add: has_id_def)
  with m(1) show "i \<in> id_n ` set (nodes g)"
    by simp
next
  assume "i \<in> id_n ` set (nodes g)"
  then show "written_id g i"
    unfolding written_id_def after_node_writes_def
    using assms by (intro node_writes_present) simp_all
qed

lemma is_dangling_keeps_id:
  "\<forall>n \<in> set (nodes g). keeps_id n \<Longrightarrow> is_dangling g r = (\<not> attached g r)"
  by (simp add: is_dangling_def attached_def written_id_keeps_id)

lemma run_no_fault:
  "run no_fault g db =
     (\<lparr>status = SUCCESS,
       metadata = [(''node_count'', MInt (length (nodes g))),
                   (''relationship_count'', MInt (length (relationships g)))]\<rparr>,
      \<lparr>store = apply_all (statements_of g) (store db), issued = issued db @ statements_of g\<rparr>)"
  using execute_all_ok [of "statements_of g" no_fault db]
  by (simp add: run_def run_try_eq no_fault_def)

lemma write_graph_no_fault:
  "write_graph no_fault g db =
     (Inr (),
      \<lparr>store = apply_all (map node_statement (nodes g) @
                 map relationship_statement (relationships g)) (store db),
       issued = issued db @ map node_statement (nodes g) @
                 map relationship_statement (relationships g)\<rparr>)"
  using execute_all_ok
    [of "map node_statement (nodes g) @ map relationship_statement (relationships g)" no_fault db]
  by (simp add: write_graph_eq no_fault_def)

lemma apply_statements_of:
  "apply_all (statements_of g) st =
   apply_all (map relationship_statement (relationships g))
     (apply_all (map node_statement (nodes g)) \<lparr>nodes_s = [], edges_s = []\<rparr>)"
  by (simp add: statements_of_def apply_all_Cons apply_all_append)

lemma nodes_after_creates:
  "nodes_s (apply_all (map relationship_statement rs) st) = nodes_s st"
  by (induction rs arbitrary: st) (simp_all add: apply_all_Nil apply_all_Cons create_nodes)

lemma after_node_writes_run:
  "apply_all (statements_of g) st =
   apply_all (map relationship_statement (relationships g)) (after_node_writes g)"
  by (simp add: apply_statements_of after_node_writes_def)

text \<open>
  C4. When no statement raises, for every graph: the load reports SUCCESS, with the
  numbers of nodes and of relationships submitted, the dangling relationships counted,
  and no error; the store it leaves is the store the same graph without its dangling
  relationships leaves; and at any moment of the relationship loop the statement of a
  relationship whose start id or end id is not among the written node ids changes
  nothing, so no edge is created for it.
\<close>

theorem dangling_relationship:
  "fst (run no_fault g db) =
     \<lparr>status = SUCCESS,
      metadata = [(''node_count'', MInt (length (nodes g))),
                  (''relationship_count'', MInt (length (relationships g)))]\<rparr> \<and>
   store (snd (run no_fault g db)) =
     store (snd (run no_fault
              (g\<lparr>relationships := filter (\<lambda>r. \<not> is_dangling g r) (relationships g)\<rparr>) db)) \<and>
   (\<forall>r \<in> set (relationships g). is_dangling g r \<longrightarrow>
      (\<forall>st. nodes_s st = nodes_s (after_node_writes g) \<longrightarrow>
            cypher (relationship_statement r) st = st))"
proof -
  let ?g = "g\<lparr>relationships := filter (\<lambda>r. \<not> is_dangling g r) (relationships g)\<rparr>"
  have dang: "\<not> list_ex (has_id (start_node_id r)) (nodes_s st) \<or>
              \<not> list_ex (has_id (end_node_id r)) (nodes_s st)"
    if "is_dangling g r" and "nodes_s st = nodes_s (after_node_writes g)" for r st
    using that by (simp add: is_dangling_def written_id_def)
  have "\<forall>r \<in> set (relationships g). is_dangling g r \<longrightarrow>
          \<not> list_ex (has_id (start_node_id r)) (nodes_s (after_node_writes g)) \<or>
          \<not> list_ex (has_id (end_node_id r)) (nodes_s (after_node_writes g))"
    using dang by blast
  from creates_without [of "relationships g" "is_dangling g" "after_node_writes g", OF this]
  have same: "apply_all (statements_of g) (store db) = apply_all (statements_of ?g) (store db)"
    by (simp add: after_node_writes_run after_node_writes_def)
  have none: "cypher (relationship_statement r) st = st"
    if "is_dangling g r" and "nodes_s st = nodes_s (after_node_writes g)" for r st
    using dang [OF that] by (rule create_no_match)
  from same none show ?thesis
    by (simp add: run_no_fault)
qed

theorem dangling_relationship_witness:
  "relationships mixed = [strays, fights] \<and>
   is_dangling mixed strays \<and> \<not> is_dangling mixed fights \<and>
   nodes_s (after_node_writes mixed) = [stored_tanjiro, stored_muzan] \<and>
   fst (run no_fault mixed old_db) =
     \<lparr>status = SUCCESS,
      metadata = [(''node_count'', MInt 2), (''relationship_count'', MInt 2)]\<rparr> \<and>
   store (snd (run no_fault mixed old_db)) =
     \<lparr>nodes_s = [stored_tanjiro, stored_muzan],
      edges_s = [\<lparr>type_e = ''FIGHTS'', start_e = 0, end_e = 1,
                  props_e = [(''episode_number'', PStr ''S1E01'')]\<rparr>]\<rparr> \<and>
   cypher (relationship_statement strays) \<lparr>nodes_s = [stored_tanjiro, stored_muzan], edges_s = []\<rparr> =
     \<lparr>nodes_s = [stored_tanjiro, stored_muzan], edges_s = []\<rparr>"
proof -
  have r: "relationships mixed = [strays, fights]"
    by (simp add: mixed_def)
  have a: "nodes_s (after_node_writes mixed) = [stored_tanjiro, stored_muzan]"
    by (simp add: after_node_writes_def mixed_def stored_tanjiro_def stored_muzan_def
        writer_defs writer_examples)
  have d: "is_dangling mixed strays" and e: "\<not> is_dangling mixed fights"
    by (simp_all add: is_dangling_def written_id_def a has_id_def stored_tanjiro_def
        stored_muzan_def strays_def fights_def)
  have f: "filter (\<lambda>r. \<not> is_dangling mixed r) (relationships mixed) = [fights]"
    by (simp add: r d e)
  have s: "store (snd (run no_fault (mixed\<lparr>relationships := [fights]\<rparr>) old_db)) =
     \<lparr>nodes_s = [stored_tanjiro, stored_muzan],
      edges_s = [\<lparr>type_e = ''FIGHTS'', start_e = 0, end_e = 1,
                  props_e = [(''episode_number'', PStr ''S1E01'')]\<rparr>]\<rparr>"
    by (simp add: mixed_def stored_tanjiro_def stored_muzan_def writer_defs writer_examples)
  have n: "nodes_s \<lparr>nodes_s = [stored_tanjiro, stored_muzan], edges_s = []\<rparr> =
           nodes_s (after_node_writes mixed)"
    by (simp add: a)
  from dangling_relationship [of mixed old_db] r d e a f s n show ?thesis
    by (simp add: mixed_def)
qed

subsection \<open>Loading a graph twice\<close>

lemma graph_store_nodes:
  "nodes_s a = nodes_s b \<Longrightarrow> graph_store ns a = graph_store ns b"
  by (simp add: graph_store_def)

lemma node_write_graph_store:
  assumes inv: "graph_store ns st" and n: "n \<in> set ns" and k: "keeps_id n"
    and one: "one_label ns"
  shows "graph_store ns (cypher (node_statement n) st) \<and>
         set (map stored_id (nodes_s (cypher (node_statement n) st))) =
           insert (Some (PStr (id_n n))) (set (map stored_id (nodes_s st)))"
proof (cases "list_ex (merge_matches (label_n n) (id_n n)) (nodes_s st)")
  case True
  let ?upd = "\<lambda>sn. if merge_matches (label_n n) (id_n n) sn
                     then sn\<lparr>props_s := set_plus (props_s sn) (or_empty (properties_n n))\<rparr>
                     else sn"
  have nodes': "nodes_s (cypher (node_statement n) st) = map ?upd (nodes_s st)"
    using True by (simp add: cypher_node_statement)
  have sid: "stored_id (?upd sn) = stored_id sn" for sn
  proof (cases "merge_matches (label_n n) (id_n n) sn")
    case True
    then have h: "has_id (id_n n) sn"
      by (simp add: merge_matches_def)
    from updated_has_id [OF k h] h True show ?thesis
      by (simp add: has_id_stored_id)
  next
    case False
    then show ?thesis by simp
  qed
  have lab: "labels_s (?upd sn) = labels_s sn" for sn
    by simp
  have ids: "map stored_id (map ?upd (nodes_s st)) = map stored_id (nodes_s st)"
    by (rule nth_equalityI) (simp_all add: sid del: if_split)
  from True obtain sn0 where "sn0 \<in> set (nodes_s st)" "merge_matches (label_n n) (id_n n) sn0"
    by (auto simp: list_ex_iff)
  then have mem: "Some (PStr (id_n n)) \<in> set (map stored_id (nodes_s st))"
    by (force simp: merge_matches_def has_id_stored_id)
  have each: "\<exists>m \<in> set ns. has_id (id_n m) sn' \<and> label_n m \<in> set (labels_s sn')"
    if "sn' \<in> set (map ?upd (nodes_s st))" for sn'
  proof -
    from that obtain sn where sn: "sn \<in> set (nodes_s st)" and sn': "sn' = ?upd sn"
      by auto
    from inv sn obtain m where m: "m \<in> set ns" "has_id (id_n m) sn" "label_n m \<in> set (labels_s sn)"
      by (auto simp: graph_store_def)
    from m(2) have "has_id (id_n m) sn'"
      unfolding sn' has_id_stored_id sid .
    moreover from m(3) have "label_n m \<in> set (labels_s sn')"
      unfolding sn' lab .
    ultimately show ?thesis
      using m(1) by blast
  qed
  from inv have "distinct (map stored_id (nodes_s st))"
    by (simp add: graph_store_def)
  with each have "graph_store ns (cypher (node_statement n) st)"
    unfolding graph_store_def nodes' ids by blast
  moreover have "set (map stored_id (nodes_s (cypher (node_statement n) st))) =
                 insert (Some (PStr (id_n n))) (set (map stored_id (nodes_s st)))"
    unfolding nodes' ids using mem by blast
  ultimately show ?thesis
    by blast
next
  case False
  let ?new = "\<lparr>labels_s = [label_n n],
               props_s = set_plus [(''id'', PStr (id_n n))] (or_empty (properties_n n))\<rparr>"
  have nodes': "nodes_s (cypher (node_statement n) st) = nodes_s st @ [?new]"
    using False by (simp add: cypher_node_statement)
  have new_id: "stored_id ?new = Some (PStr (id_n n))"
    using created_has_id [OF k] by (simp add: has_id_stored_id)
  have fresh: "Some (PStr (id_n n)) \<notin> set (map stored_id (nodes_s st))"
  proof
    assume "Some (PStr (id_n n)) \<in> set (map stored_id (nodes_s st))"
    then obtain sn where sn: "sn \<in> set (nodes_s st)" and i: "has_id (id_n n) sn"
      by (auto simp: has_id_stored_id)
    from inv sn obtain m where m: "m \<in> set ns" "has_id (id_n m) sn" "label_n m \<in> set (labels_s sn)"
      by (auto simp: graph_store_def)
    from m(2) i have "Some (PStr (id_n m)) = Some (PStr (id_n n))"
      unfolding has_id_def by (rule trans [OF sym])
    then have "id_n m = id_n n"
      by (simp only: option.inject PropertyValue.inject)
    with one m(1) n have "label_n m = label_n n"
      unfolding one_label_def by blast
    with m(3) have "label_n n \<in> set (labels_s sn)"
      by (simp only:)
    with i have "merge_matches (label_n n) (id_n n) sn"
      unfolding merge_matches_def by blast
    with sn have "list_ex (merge_matches (label_n n) (id_n n)) (nodes_s st)"
      unfolding list_ex_iff by blast
    with False show False
      by blast
  qed
  have "distinct (map stored_id (nodes_s st @ [?new]))"
    using inv fresh new_id by (simp add: graph_store_def)
  moreover have "\<forall>sn \<in> set (nodes_s st @ [?new]).
                   \<exists>m \<in> set ns. has_id (id_n m) sn \<and> label_n m \<in> set (labels_s sn)"
    using inv n created_has_id [OF k] by (auto simp: graph_store_def)
  ultimately have "graph_store ns (cypher (node_statement n) st)"
    unfolding graph_store_def nodes' by blast
  moreover have "set (map stored_id (nodes_s (cypher (node_statement n) st))) =
                 insert (Some (PStr (id_n n))) (set (map stored_id (nodes_s st)))"
    unfolding nodes' using new_id by simp
  ultimately show ?thesis
    by blast
qed

lemma node_writes_graph_store:
  assumes "graph_store ns st" and "set ms \<subseteq> set ns" and "\<forall>n \<in> set ms. keeps_id n"
    and "one_label ns"
  shows "graph_store ns (apply_all (map node_statement ms) st) \<and>
         set (map stored_id (nodes_s (apply_all (map node_statement ms) st))) =
           set (map stored_id (nodes_s st)) \<union> (\<lambda>n. Some (PStr (id_n n))) ` set ms \<and>
         edges_s (apply_all (map node_statement ms) st) = edges_s st"
  using assms(1-3)
proof (induction ms arbitrary: st)
  case Nil
  then show ?case by (simp add: apply_all_Nil)
next
  case (Cons n ms)
  let ?st = "cypher (node_statement n) st"
  have step: "graph_store ns ?st"
    "set (map stored_id (nodes_s ?st)) = insert (Some (PStr (id_n n))) (set (map stored_id (nodes_s st)))"
    using node_write_graph_store [OF Cons.prems(1) _ _ assms(4), of n] Cons.prems(2,3)
    by simp_all
  have "graph_store ns (apply_all (map node_statement ms) ?st) \<and>
        set (map stored_id (nodes_s (apply_all (map node_statement ms) ?st))) =
          set (map stored_id (nodes_s ?st)) \<union> (\<lambda>n. Some (PStr (id_n n))) ` set ms \<and>
        edges_s (apply_all (map node_statement ms) ?st) = edges_s ?st"
    using step(1) Cons.prems(2,3) by (intro Cons.IH) simp_all
  then show ?case
    unfolding step(2) by (simp add: apply_all_Cons node_write_edges)
qed

lemma graph_store_count:
  assumes "graph_store ns st"
    and "set (map stored_id (nodes_s st)) = (\<lambda>n. Some (PStr (id_n n))) ` set ns"
  shows "length (nodes_s st) = card (id_n ` set ns)"
proof -
  from assms(1) have "distinct (map stored_id (nodes_s st))"
    by (simp add: graph_store_def)
  from distinct_card [OF this]
  have "length (nodes_s st) = card (set (map stored_id (nodes_s st)))"
    by simp
  also have "\<dots> = card ((\<lambda>i. Some (PStr i)) ` id_n ` set ns)"
    by (simp only: assms(2) image_image)
  also have "\<dots> = card (id_n ` set ns)"
    by (rule card_image) (simp add: inj_on_def)
  finally show ?thesis .
qed

lemma length_filter_indices:
  "length (filter (\<lambda>k. P (xs ! k)) [0..<length xs]) = length (filter P xs)"
proof -
  have "filter P xs = filter P (map (nth xs) [0..<length xs])"
    by (simp add: map_nth)
  also have "\<dots> = map (nth xs) (filter (\<lambda>k. P (xs ! k)) [0..<length xs])"
    by (simp add: filter_map o_def)
  finally show ?thesis
    by (metis length_map)
qed

lemma one_match:
  assumes "distinct (map f xs)" and "v \<in> set (map f xs)"
  shows "length (filter (\<lambda>x. f x = v) xs) = 1"
proof -
  have "length (filter (\<lambda>x. f x = v) xs) = length (filter (\<lambda>y. y = v) (map f xs))"
    by (simp add: filter_map o_def)
  also have "\<dots> = card ({y. y = v} \<inter> set (map f xs))"
    using assms(1) by (rule distinct_length_filter)
  also have "{y. y = v} \<inter> set (map f xs) = {v}"
    using assms(2) by auto
  finally show ?thesis
    by simp
qed

lemma ids_matching_one:
  assumes "distinct (map stored_id (nodes_s st))"
    and "Some (PStr i) \<in> set (map stored_id (nodes_s st))"
  shows "\<exists>a. ids_matching i st = [a]"
proof -
  have "length (ids_matching i st) =
        length (filter (\<lambda>sn. stored_id sn = Some (PStr i)) (nodes_s st))"
    unfolding ids_matching_def has_id_stored_id by (rule length_filter_indices)
  also have "\<dots> = 1"
    using assms by (rule one_match)
  finally show ?thesis
    by (cases "ids_matching i st") simp_all
qed

lemma create_attached:
  assumes "graph_store (nodes g) st"
    and "set (map stored_id (nodes_s st)) = (\<lambda>n. Some (PStr (id_n n))) ` set (nodes g)"
    and "attached g r"
  shows "length (edges_s (cypher (relationship_statement r) st)) = Suc (length (edges_s st))"
proof -
  from assms(1) have d: "distinct (map stored_id (nodes_s st))"
    by (simp add: graph_store_def)
  from assms(2,3) have "Some (PStr (start_node_id r)) \<in> set (map stored_id (nodes_s st))"
    and "Some (PStr (end_node_id r)) \<in> set (map stored_id (nodes_s st))"
    by (auto simp: attached_def)
  with d obtain a b where "ids_matching (start_node_id r) st = [a]"
    and "ids_matching (end_node_id r) st = [b]"
    using ids_matching_one by blast
  then show ?thesis
    by (simp add: relationship_statement_def cypher_create_def)
qed

lemma creates_attached:
  assumes "graph_store (nodes g) st"
    and "set (map stored_id (nodes_s st)) = (\<lambda>n. Some (PStr (id_n n))) ` set (nodes g)"
    and "\<forall>r \<in> set rs. attached g r"
  shows "length (edges_s (apply_all (map relationship_statement rs) st)) =
         length (edges_s st) + length rs"
  using assms
proof (induction rs arbitrary: st)
  case Nil
  show ?case by (simp add: apply_all_Nil)
next
  case (Cons r rs)
  let ?st = "cypher (relationship_statement r) st"
  have n: "nodes_s ?st = nodes_s st"
    by (rule create_nodes)
  have "graph_store (nodes g) ?st"
    using Cons.prems(1) graph_store_nodes [OF n] by simp
  moreover have "set (map stored_id (nodes_s ?st)) = (\<lambda>n. Some (PStr (id_n n))) ` set (nodes g)"
    using Cons.prems(2) by (simp only: n)
  moreover have "\<forall>r \<in> set rs. attached g r"
    using Cons.prems(3) by simp
  ultimately have "length (edges_s (apply_all (map relationship_statement rs) ?st)) =
                   length (edges_s ?st) + length rs"
    by (rule Cons.IH)
  moreover have "length (edges_s ?st) = Suc (length (edges_s st))"
    using Cons.prems by (intro create_attached) auto
  ultimately show ?case
    by (simp add: apply_all_Cons)
qed

lemma graph_store_empty: "graph_store ns \<lparr>nodes_s = [], edges_s = []\<rparr>"
  by (simp add: graph_store_def)

text \<open>
  C2, as the code has it. Take a graph in which no node overwrites its id by a property
  named \<open>id\<close>, nodes with the same id have the same label, and both ends of every
  relationship are ids of nodes; let N be the number of its distinct node ids and M the
  number of its relationships, and let no statement raise. Loaded once, it leaves N
  stored nodes and M stored edges; written a second time without a reset in between, it
  leaves N stored nodes and 2M stored edges.
\<close>

theorem double_load:
  assumes keeps: "\<forall>n \<in> set (nodes g). keeps_id n"
    and one: "one_label (nodes g)"
    and ends: "\<forall>r \<in> set (relationships g). attached g r"
  shows "length (nodes_s (store (snd (run no_fault g db)))) = card (id_n ` set (nodes g)) \<and>
         length (edges_s (store (snd (run no_fault g db)))) = length (relationships g) \<and>
         length (nodes_s (store (snd (write_graph no_fault g (snd (run no_fault g db)))))) =
           card (id_n ` set (nodes g)) \<and>
         length (edges_s (store (snd (write_graph no_fault g (snd (run no_fault g db)))))) =
           2 * length (relationships g)"
proof -
  let ?N = "map node_statement (nodes g)"
  let ?R = "map relationship_statement (relationships g)"
  let ?ids = "(\<lambda>n. Some (PStr (id_n n))) ` set (nodes g)"
  let ?st1 = "apply_all ?N \<lparr>nodes_s = [], edges_s = []\<rparr>"
  let ?st2 = "apply_all ?R ?st1"
  let ?st3 = "apply_all ?N ?st2"
  let ?st4 = "apply_all ?R ?st3"
  have once: "store (snd (run no_fault g db)) = ?st2"
    by (simp add: run_no_fault apply_statements_of)
  have twice: "store (snd (write_graph no_fault g (snd (run no_fault g db)))) = ?st4"
    by (simp add: write_graph_no_fault run_no_fault apply_statements_of apply_all_append)
  have s1: "graph_store (nodes g) ?st1 \<and>
            set (map stored_id (nodes_s ?st1)) =
              set (map stored_id (nodes_s \<lparr>nodes_s = [], edges_s = []\<rparr>)) \<union> ?ids \<and>
            edges_s ?st1 = edges_s \<lparr>nodes_s = [], edges_s = []\<rparr>"
    using graph_store_empty keeps one by (intro node_writes_graph_store) simp_all
  then have g1: "graph_store (nodes g) ?st1" and i1: "set (map stored_id (nodes_s ?st1)) = ?ids"
    and e1: "edges_s ?st1 = []"
    by simp_all
  have n2: "nodes_s ?st2 = nodes_s ?st1"
    by (rule nodes_after_creates)
  have g2: "graph_store (nodes g) ?st2"
    using g1 graph_store_nodes [OF n2] by simp
  have i2: "set (map stored_id (nodes_s ?st2)) = ?ids"
    using i1 by (simp only: n2)
  have e2: "length (edges_s ?st2) = length (relationships g)"
    using creates_attached [OF g1 i1 ends] e1 by simp
  have s3: "graph_store (nodes g) ?st3 \<and>
            set (map stored_id (nodes_s ?st3)) = set (map stored_id (nodes_s ?st2)) \<union> ?ids \<and>
            edges_s ?st3 = edges_s ?st2"
    using g2 keeps one by (intro node_writes_graph_store) simp_all
  then have g3: "graph_store (nodes g) ?st3" and e3: "edges_s ?st3 = edges_s ?st2"
    by simp_all
  from s3 have i3: "set (map stored_id (nodes_s ?st3)) = ?ids"
    unfolding i2 by simp
  have n4: "nodes_s ?st4 = nodes_s ?st3"
    by (rule nodes_after_creates)
  have e4: "length (edges_s ?st4) = 2 * length (relationships g)"
    using creates_attached [OF g3 i3 ends] e3 e2 by simp
  have c2: "length (nodes_s ?st2) = card (id_n ` set (nodes g))"
    using graph_store_count [OF g1 i1] by (simp only: n2)
  have c4: "length (nodes_s ?st4) = card (id_n ` set (nodes g))"
    using graph_store_count [OF g3 i3] by (simp only: n4)
  from c2 e2 c4 e4 show ?thesis
    unfolding once twice by blast
qed

theorem double_load_witness:
  "nodes scenario = [tanjiro, muzan] \<and> keeps_id tanjiro \<and> keeps_id muzan \<and>
   one_label [tanjiro, muzan] \<and>
   relationships scenario = [fights] \<and> attached scenario fights \<and>
   card (id_n ` set (nodes scenario)) = 2 \<and>
   length (nodes_s (store (snd (run no_fault scenario old_db)))) = 2 \<and>
   length (edges_s (store (snd (run no_fault scenario old_db)))) = 1 \<and>
   length (nodes_s (store (snd (write_graph no_fault scenario
      (snd (run no_fault scenario old_db)))))) = 2 \<and>
   length (edges_s (store (snd (write_graph no_fault scenario
      (snd (run no_fault scenario old_db)))))) = 2"
proof -
  have n: "nodes scenario = [tanjiro, muzan]" and r: "relationships scenario = [fights]"
    by (simp_all add: scenario_def)
  have k: "keeps_id tanjiro" "keeps_id muzan"
    by (simp_all add: keeps_id_def or_empty_def tanjiro_def muzan_def)
  have o: "one_label [tanjiro, muzan]"
    by (simp add: one_label_def tanjiro_def muzan_def)
  have a: "attached scenario fights"
    by (simp add: attached_def scenario_def fights_def tanjiro_def muzan_def)
  have c: "card (id_n ` set (nodes scenario)) = 2"
    by (simp add: scenario_def tanjiro_def muzan_def)
  have h1: "\<forall>n \<in> set (nodes scenario). keeps_id n"
    by (simp add: n k)
  have h2: "one_label (nodes scenario)"
    by (simp add: n o)
  have h3: "\<forall>r \<in> set (relationships scenario). attached scenario r"
    by (simp add: r a)
  from double_load [OF h1 h2 h3, of old_db] n r k o a c show ?thesis
    by simp
qed

text \<open>
  The claim C2 as stated fails: a graph of one node and one relationship whose end is
  not a node of the graph, loaded twice, leaves no edge, not two.
\<close>

theorem double_load_counterexample:
  "length (relationships dangling) = 1 \<and>
   card (id_n ` set (nodes dangling)) = 1 \<and>
   length (nodes_s (store (snd (write_graph no_fault dangling
      (snd (run no_fault dangling empty_db)))))) = 1 \<and>
   length (edges_s (store (snd (write_graph no_fault dangling
      (snd (run no_fault dangling empty_db)))))) = 0"
  by (simp add: writer_defs writer_examples)

end
